theory Spec2Isabelle
  imports Main
begin

section \<open>The syntax tree of go/ast, as package dataloc reads it\<close>

text \<open>
  Package dataloc (src/dataloc/dataloc.go) parses the source file of its caller with
  go/parser and walks the tree twice with \<open>ast.Inspect\<close>. The model below keeps the
  node kinds the two walks inspect, with the fields they read; every other kind of node
  is \<open>Other\<close>, a position and its children.

  \<open>token.Position\<close> is what \<open>fset.Position(n.Pos())\<close> reports for a node: the
  file name and the 1-based line. Every node carries the position the file set reports
  for it.
\<close>

record position =
  Filename :: string
  Line :: int

datatype token =
    token_ILLEGAL | token_INT | token_FLOAT | token_IMAG | token_CHAR | token_STRING
  | token_IMPORT | token_CONST | token_TYPE | token_VAR

text \<open>
  \<open>*ast.Object\<close>: the parser gives every declaration an object of its own and lets
  each use of the identifier point to it. The pointer is modelled by a number; \<open>None\<close>
  is the nil pointer of an identifier the parser did not resolve (a package name, a
  predeclared type, a name declared in another file). A blank identifier that a
  declaration introduces has an object of its own.
\<close>

type_synonym object = "nat option"

record ident =
  NamePos :: position
  Name :: string
  Obj :: object

datatype node =
    Ident ident
  | BasicLit position token string
  | SelectorExpr position node ident
  | CallExpr position node "node list"
  | CompositeLit position "node option" "node list"
  | KeyValueExpr position node node
  | ArrayType position "node option" node
  | MapType position node node
  | StructType position "field list"
  | RangeStmt position "node option" "node option" node node
  | AssignStmt position "node list" "node list"
  | GenDecl position token "node list"
  | ValueSpec position "ident list" "node option" "node list"
  | TypeSpec position ident node
  | FuncDecl position "node list"
  | File position "node list"
  | Other position "node list"
and field = Field "ident list" node

text \<open>
  The arguments are, in go/ast's names:
  \<open>BasicLit ValuePos Kind Value\<close>, \<open>SelectorExpr pos X Sel\<close>, \<open>CallExpr pos Fun Args\<close>,
  \<open>CompositeLit pos Type Elts\<close> (\<open>Type\<close> may be nil), \<open>KeyValueExpr pos Key Value\<close>,
  \<open>ArrayType pos Len Elt\<close>, \<open>MapType pos Key Value\<close>, \<open>StructType pos Fields.List\<close>,
  \<open>RangeStmt pos Key Value X Body\<close> (\<open>Key\<close> and \<open>Value\<close> may be nil),
  \<open>AssignStmt pos Lhs Rhs\<close>, \<open>GenDecl pos Tok Specs\<close>,
  \<open>ValueSpec pos Names Type Values\<close>, \<open>TypeSpec pos Name Type\<close>, and
  \<open>Field Names Type\<close>. \<open>GenDecl\<close> and \<open>FuncDecl\<close> are the two kinds that implement
  \<open>ast.Decl\<close> in a file that parsed without error.
\<close>

fun Pos :: "node \<Rightarrow> position" where
  "Pos (Ident i) = NamePos i"
| "Pos (BasicLit p kind v) = p"
| "Pos (SelectorExpr p x sel) = p"
| "Pos (CallExpr p f args) = p"
| "Pos (CompositeLit p ty elts) = p"
| "Pos (KeyValueExpr p k v) = p"
| "Pos (ArrayType p len elt) = p"
| "Pos (MapType p k v) = p"
| "Pos (StructType p flds) = p"
| "Pos (RangeStmt p k v x body) = p"
| "Pos (AssignStmt p lhs rhs) = p"
| "Pos (GenDecl p tok specs) = p"
| "Pos (ValueSpec p names ty vals) = p"
| "Pos (TypeSpec p name ty) = p"
| "Pos (FuncDecl p cs) = p"
| "Pos (File p cs) = p"
| "Pos (Other p cs) = p"

subsection \<open>ast.Inspect\<close>

text \<open>
  \<open>ast.Inspect(root, f)\<close> calls \<open>f\<close> on the nodes of the tree in depth-first order,
  parents first; when \<open>f\<close> returns false the children of that node are skipped and
  the walk goes on with the node's next sibling. After the children of a node it calls
  \<open>f(nil)\<close>: both closures of \<open>loc\<close> do nothing on nil (the first one fails all
  its type assertions, the second returns at once), so the model leaves that call out.

  \<open>children\<close> lists what \<open>ast.Walk\<close> visits below a node, in its order. Below a
  struct type it visits the field list and each field, nodes on which both closures do
  nothing but go on; the model visits the names and the type of each field directly.
\<close>

fun optNode :: "node option \<Rightarrow> node list" where
  "optNode None = []"
| "optNode (Some n) = [n]"

fun fieldChildren :: "field \<Rightarrow> node list" where
  "fieldChildren (Field names ty) = map Ident names @ [ty]"

fun children :: "node \<Rightarrow> node list" where
  "children (Ident i) = []"
| "children (BasicLit p kind v) = []"
| "children (SelectorExpr p x sel) = [x, Ident sel]"
| "children (CallExpr p f args) = f # args"
| "children (CompositeLit p ty elts) = optNode ty @ elts"
| "children (KeyValueExpr p k v) = [k, v]"
| "children (ArrayType p len elt) = optNode len @ [elt]"
| "children (MapType p k v) = [k, v]"
| "children (StructType p flds) = concat (map fieldChildren flds)"
| "children (RangeStmt p k v x body) = optNode k @ optNode v @ [x, body]"
| "children (AssignStmt p lhs rhs) = lhs @ rhs"
| "children (GenDecl p tok specs) = specs"
| "children (ValueSpec p names ty vals) = map Ident names @ optNode ty @ vals"
| "children (TypeSpec p name ty) = [Ident name, ty]"
| "children (FuncDecl p cs) = cs"
| "children (File p cs) = cs"
| "children (Other p cs) = cs"

text \<open>The number of nodes of a tree: the measure under which the walk terminates.\<close>

fun weight :: "node \<Rightarrow> nat" and weightField :: "field \<Rightarrow> nat" where
  "weight (Ident i) = 1"
| "weight (BasicLit p kind v) = 1"
| "weight (SelectorExpr p x sel) = 2 + weight x"
| "weight (CallExpr p f args) = 1 + weight f + sum_list (map weight args)"
| "weight (CompositeLit p ty elts) =
     1 + (case ty of None \<Rightarrow> 0 | Some t \<Rightarrow> weight t) + sum_list (map weight elts)"
| "weight (KeyValueExpr p k v) = 1 + weight k + weight v"
| "weight (ArrayType p len elt) =
     1 + (case len of None \<Rightarrow> 0 | Some t \<Rightarrow> weight t) + weight elt"
| "weight (MapType p k v) = 1 + weight k + weight v"
| "weight (StructType p flds) = 1 + sum_list (map weightField flds)"
| "weight (RangeStmt p k v x body) =
     1 + (case k of None \<Rightarrow> 0 | Some t \<Rightarrow> weight t)
       + (case v of None \<Rightarrow> 0 | Some t \<Rightarrow> weight t) + weight x + weight body"
| "weight (AssignStmt p lhs rhs) = 1 + sum_list (map weight lhs) + sum_list (map weight rhs)"
| "weight (GenDecl p tok specs) = 1 + sum_list (map weight specs)"
| "weight (ValueSpec p names ty vals) =
     1 + length names + (case ty of None \<Rightarrow> 0 | Some t \<Rightarrow> weight t)
       + sum_list (map weight vals)"
| "weight (TypeSpec p name ty) = 2 + weight ty"
| "weight (FuncDecl p cs) = 1 + sum_list (map weight cs)"
| "weight (File p cs) = 1 + sum_list (map weight cs)"
| "weight (Other p cs) = 1 + sum_list (map weight cs)"
| "weightField (Field names ty) = length names + weight ty"

lemma weight_idents: "sum_list (map (weight \<circ> Ident) names) = length names"
  by (induction names) auto

lemma weight_optNode:
  "sum_list (map weight (optNode t)) = (case t of None \<Rightarrow> 0 | Some n \<Rightarrow> weight n)"
  by (cases t) auto

lemma weight_fields:
  "sum_list (map weight (concat (map fieldChildren flds))) = sum_list (map weightField flds)"
proof (induction flds)
  case Nil
  show ?case by simp
next
  case (Cons f fs)
  obtain names ty where "f = Field names ty" by (cases f)
  with Cons show ?case by (simp add: weight_idents)
qed

lemma weight_children: "sum_list (map weight (children n)) < weight n"
  by (cases n) (simp_all add: weight_idents weight_optNode weight_fields)

text \<open>
  A Go call either returns or panics. \<open>Panics\<close> carries the panic's message.
\<close>

datatype 'a outcome = Panics string | Returns 'a

text \<open>
  The walk, with the nodes still to visit as a list: the closure \<open>f\<close> gets the node
  and the variables it captured (\<open>s\<close>), and returns whether to descend and the
  variables as it left them. A panic of the closure ends the walk.
\<close>

function Inspect ::
  "(node \<Rightarrow> 's \<Rightarrow> (bool \<times> 's) outcome) \<Rightarrow> node list \<Rightarrow> 's \<Rightarrow> 's outcome" where
  "Inspect f [] s = Returns s"
| "Inspect f (n # rest) s =
     (case f n s of
        Panics msg \<Rightarrow> Panics msg
      | Returns (descend, s') \<Rightarrow> Inspect f ((if descend then children n else []) @ rest) s')"
  by pat_completeness auto
termination
proof (relation "measure (\<lambda>(f, ns, s). sum_list (map weight ns))")
  show "wf (measure (\<lambda>(f, ns, s). sum_list (map weight ns)))" by simp
next
  fix f :: "node \<Rightarrow> 's \<Rightarrow> (bool \<times> 's) outcome" and n rest s x2 x y
  show "((f, (if x then children n else []) @ rest, y), f, n # rest, s)
       \<in> measure (\<lambda>(f, ns, s). sum_list (map weight ns))"
    using weight_children [of n] by simp
qed

declare Inspect.simps [simp del]

section \<open>The binding index: the first walk of \<open>loc\<close>\<close>

text \<open>
  The four maps of \<open>loc\<close> (dataloc.go, lines 75-82), keyed by \<open>*ast.Object\<close>.
  A Go map may have nil as a key, so the key type is \<open>object\<close>, nil included.
\<close>

record index =
  objToTypeDecl :: "object \<rightharpoonup> node"
  objToVarInit :: "object \<rightharpoonup> node"
  objToRangeExprForValue :: "object \<rightharpoonup> node"
  objToRangeExprForKey :: "object \<rightharpoonup> node"

definition emptyIndex :: index where
  "emptyIndex = \<lparr>objToTypeDecl = Map.empty, objToVarInit = Map.empty,
     objToRangeExprForValue = Map.empty, objToRangeExprForKey = Map.empty\<rparr>"

text \<open>The type assertion \<open>x.(*ast.Ident)\<close> on an expression that may be nil.\<close>

fun asIdent :: "node option \<Rightarrow> ident option" where
  "asIdent (Some (Ident i)) = Some i"
| "asIdent _ = None"

text \<open>
  Lines 97-101: \<open>for i, name := range valueSpec.Names\<close>, recording
  \<open>valueSpec.Values[i]\<close> when \<open>i < len(valueSpec.Values)-1\<close>.
\<close>

fun valueSpecNames ::
  "int \<Rightarrow> ident list \<Rightarrow> node list \<Rightarrow> (object \<rightharpoonup> node) \<Rightarrow> (object \<rightharpoonup> node)" where
  "valueSpecNames i [] vals m = m"
| "valueSpecNames i (name # names) vals m =
     valueSpecNames (i + 1) names vals
       (if i < int (length vals) - 1 then m(Obj name \<mapsto> vals ! nat i) else m)"

text \<open>Lines 95-103: the specs of a \<open>var\<close> declaration.\<close>

fun varSpec :: "node \<Rightarrow> (object \<rightharpoonup> node) \<Rightarrow> (object \<rightharpoonup> node)" where
  "varSpec (ValueSpec p names ty vals) m = valueSpecNames 0 names vals m"
| "varSpec spec m = m"

fun varSpecs :: "node list \<Rightarrow> (object \<rightharpoonup> node) \<Rightarrow> (object \<rightharpoonup> node)" where
  "varSpecs [] m = m"
| "varSpecs (spec # specs) m = varSpecs specs (varSpec spec m)"

text \<open>Lines 105-109: the specs of a \<open>type\<close> declaration.\<close>

fun typeSpec :: "node \<Rightarrow> (object \<rightharpoonup> node) \<Rightarrow> (object \<rightharpoonup> node)" where
  "typeSpec (TypeSpec p name ty) m = m(Obj name \<mapsto> ty)"
| "typeSpec spec m = m"

fun typeSpecs :: "node list \<Rightarrow> (object \<rightharpoonup> node) \<Rightarrow> (object \<rightharpoonup> node)" where
  "typeSpecs [] m = m"
| "typeSpecs (spec # specs) m = typeSpecs specs (typeSpec spec m)"

text \<open>
  Lines 113-123: \<open>for i, expr := range assignStmt.Lhs\<close>; \<open>nlhs\<close> is
  \<open>len(assignStmt.Lhs)\<close>. Where the counts differ and the right side is not a single
  expression the code only writes a debug message.
\<close>

fun assignExpr ::
  "int \<Rightarrow> node \<Rightarrow> nat \<Rightarrow> node list \<Rightarrow> (object \<rightharpoonup> node) \<Rightarrow> (object \<rightharpoonup> node)" where
  "assignExpr i (Ident ident) nlhs rhs m =
     (if nlhs = length rhs then m(Obj ident \<mapsto> rhs ! nat i)
      else if length rhs = 1 then m(Obj ident \<mapsto> rhs ! 0)
      else m)"
| "assignExpr i expr nlhs rhs m = m"

fun assignLhs ::
  "int \<Rightarrow> node list \<Rightarrow> nat \<Rightarrow> node list \<Rightarrow> (object \<rightharpoonup> node) \<Rightarrow> (object \<rightharpoonup> node)" where
  "assignLhs i [] nlhs rhs m = m"
| "assignLhs i (expr # exprs) nlhs rhs m =
     assignLhs (i + 1) exprs nlhs rhs (assignExpr i expr nlhs rhs m)"

text \<open>Lines 85-91: a range statement records its collection for the value, then the key.\<close>

definition rangeStmt :: "node option \<Rightarrow> node option \<Rightarrow> node \<Rightarrow> index \<Rightarrow> index" where
  "rangeStmt key val x idx =
     (let idx1 = (case asIdent val of
                    Some ident \<Rightarrow>
                      idx\<lparr>objToRangeExprForValue := (objToRangeExprForValue idx)(Obj ident \<mapsto> x)\<rparr>
                  | None \<Rightarrow> idx)
      in case asIdent key of
           Some ident \<Rightarrow>
             idx1\<lparr>objToRangeExprForKey := (objToRangeExprForKey idx1)(Obj ident \<mapsto> x)\<rparr>
         | None \<Rightarrow> idx1)"

text \<open>The closure of the first walk (lines 84-127). It always returns true.\<close>

fun indexNode :: "node \<Rightarrow> index \<Rightarrow> index" where
  "indexNode (RangeStmt p key val x body) idx = rangeStmt key val x idx"
| "indexNode (GenDecl p tok specs) idx =
     (if tok = token_VAR then idx\<lparr>objToVarInit := varSpecs specs (objToVarInit idx)\<rparr>
      else if tok = token_TYPE then idx\<lparr>objToTypeDecl := typeSpecs specs (objToTypeDecl idx)\<rparr>
      else idx)"
| "indexNode (AssignStmt p lhs rhs) idx =
     idx\<lparr>objToVarInit := assignLhs 0 lhs (length lhs) rhs (objToVarInit idx)\<rparr>"
| "indexNode n idx = idx"

definition indexVisit :: "node \<Rightarrow> index \<Rightarrow> (bool \<times> index) outcome" where
  "indexVisit n idx = Returns (True, indexNode n idx)"

section \<open>Matching literals\<close>

text \<open>
  \<open>isStringLiteral\<close> (lines 275-284). \<open>strconv.Quote\<close> is Go's standard library:
  the model takes it as the parameter \<open>quote\<close>.
\<close>

fun isStringLiteral :: "(string \<Rightarrow> string) \<Rightarrow> node \<Rightarrow> string \<Rightarrow> bool" where
  "isStringLiteral quote (BasicLit p kind v) s =
     (if kind \<noteq> token_STRING then False else v = quote s)"
| "isStringLiteral quote n s = False"

text \<open>
  \<open>findStructFieldIndex\<close> (lines 286-301): \<open>i\<close> counts the entries of
  \<open>typ.Fields.List\<close>, and an entry holds all the names declared with one type.
\<close>

fun fieldListLoop :: "int \<Rightarrow> field list \<Rightarrow> string \<Rightarrow> int" where
  "fieldListLoop i [] name = - 1"
| "fieldListLoop i (Field names ty # rest) name =
     (if list_ex (\<lambda>ident. Name ident = name) names then i
      else fieldListLoop (i + 1) rest name)"

fun findStructFieldIndex :: "node \<Rightarrow> string \<Rightarrow> int" where
  "findStructFieldIndex (StructType p flds) name = fieldListLoop 0 flds name"
| "findStructFieldIndex t name = - 1"

text \<open>
  \<open>findTestCaseItem\<close> (lines 206-273). \<open>fieldMatches\<close> is the body of the loop
  over the fields of one test case (lines 252-268), \<open>testcaseFields\<close> that loop,
  \<open>testcaseMatch\<close> the body of the loop over the test cases (lines 234-269) and
  \<open>testcasesLoop\<close> that loop; \<open>testcaseTypeOf\<close> is lines 212-231, with \<open>None\<close>
  where the code returns nil.
\<close>

fun fieldMatches ::
  "(string \<Rightarrow> string) \<Rightarrow> node \<Rightarrow> string \<Rightarrow> string \<Rightarrow> int \<Rightarrow> node \<Rightarrow> bool" where
  "fieldMatches quote testcaseType key val i (KeyValueExpr p (Ident ident) v) =
     (Name ident = key \<and> isStringLiteral quote v val)"
| "fieldMatches quote testcaseType key val i (BasicLit p kind v) =
     (findStructFieldIndex testcaseType key = i
      \<and> isStringLiteral quote (BasicLit p kind v) val)"
| "fieldMatches quote testcaseType key val i fld = False"

fun testcaseFields ::
  "(string \<Rightarrow> string) \<Rightarrow> node \<Rightarrow> string \<Rightarrow> string \<Rightarrow> int \<Rightarrow> node list \<Rightarrow> bool" where
  "testcaseFields quote testcaseType key val i [] = False"
| "testcaseFields quote testcaseType key val i (fld # flds) =
     (if fieldMatches quote testcaseType key val i fld then True
      else testcaseFields quote testcaseType key val (i + 1) flds)"

fun mapKeyMatches :: "(string \<Rightarrow> string) \<Rightarrow> string \<Rightarrow> node \<Rightarrow> bool" where
  "mapKeyMatches quote val (KeyValueExpr p (BasicLit q kind v) e) =
     isStringLiteral quote (BasicLit q kind v) val"
| "mapKeyMatches quote val testcase = False"

fun structLitMatches ::
  "(string \<Rightarrow> string) \<Rightarrow> node \<Rightarrow> string \<Rightarrow> string \<Rightarrow> node \<Rightarrow> bool" where
  "structLitMatches quote testcaseType key val (CompositeLit p ty elts) =
     testcaseFields quote testcaseType key val 0 elts"
| "structLitMatches quote testcaseType key val testcase = False"

definition testcaseMatch ::
  "(string \<Rightarrow> string) \<Rightarrow> node \<Rightarrow> string \<Rightarrow> string \<Rightarrow> node \<Rightarrow> bool" where
  "testcaseMatch quote testcaseType key val testcase =
     (if mapKeyMatches quote val testcase then True
      else structLitMatches quote testcaseType key val testcase)"

fun testcasesLoop ::
  "(string \<Rightarrow> string) \<Rightarrow> node \<Rightarrow> string \<Rightarrow> string \<Rightarrow> node list \<Rightarrow> node option" where
  "testcasesLoop quote testcaseType key val [] = None"
| "testcasesLoop quote testcaseType key val (testcase # rest) =
     (if testcaseMatch quote testcaseType key val testcase then Some testcase
      else testcasesLoop quote testcaseType key val rest)"

fun testcaseTypeOf :: "node option \<Rightarrow> (object \<rightharpoonup> node) \<Rightarrow> node option" where
  "testcaseTypeOf (Some (ArrayType p len (Ident ident))) decls = decls (Obj ident)"
| "testcaseTypeOf (Some (ArrayType p len elt)) decls = Some elt"
| "testcaseTypeOf (Some (MapType p k v)) decls = Some (MapType p k v)"
| "testcaseTypeOf ty decls = None"

fun findTestCaseItem ::
  "(string \<Rightarrow> string) \<Rightarrow> node option \<Rightarrow> string \<Rightarrow> string \<Rightarrow> (object \<rightharpoonup> node) \<Rightarrow> node option"
  where
  "findTestCaseItem quote (Some (CompositeLit p ty elts)) key val decls =
     (case testcaseTypeOf ty decls of
        None \<Rightarrow> None
      | Some testcaseType \<Rightarrow> testcasesLoop quote testcaseType key val elts)"
| "findTestCaseItem quote init key val decls = None"

section \<open>The site matcher: the second walk of \<open>loc\<close>\<close>

text \<open>\<open>isSelector\<close> (lines 197-204) and \<open>isMethodCall\<close> (lines 186-195).\<close>

fun isSelector :: "node \<Rightarrow> (ident \<times> string) option" where
  "isSelector (SelectorExpr p (Ident ident) sel) = Some (ident, Name sel)"
| "isSelector n = None"

fun isMethodCall :: "node \<Rightarrow> string \<Rightarrow> string \<Rightarrow> node option" where
  "isMethodCall (CallExpr p f args) obj fn =
     (case isSelector f of
        Some (ident, name) \<Rightarrow>
          (if Name ident = obj \<and> name = fn then Some (CallExpr p f args) else None)
      | None \<Rightarrow> None)"
| "isMethodCall n obj fn = None"

fun Args :: "node \<Rightarrow> node list" where
  "Args (CallExpr p f args) = args"
| "Args n = []"

text \<open>\<open>fmt.Sprintf("%s:%d", pos.Filename, pos.Line)\<close>: the line in decimal.\<close>

fun digits :: "nat \<Rightarrow> string" where
  "digits n =
     (if n < 10 then [''0123456789'' ! n]
      else digits (n div 10) @ [''0123456789'' ! (n mod 10)])"

declare digits.simps [simp del]

definition itoa :: "int \<Rightarrow> string" where
  "itoa i = (if i < 0 then CHR ''-'' # digits (nat (- i)) else digits (nat i))"

definition sprintfLoc :: "position \<Rightarrow> string" where
  "sprintfLoc pos = Filename pos @ '':'' @ itoa (Line pos)"

text \<open>
  Lines 149-160 and 166-175, which differ only in the map they read and in the key:
  \<open>rangeExpr\<close> is the result of the lookup of the loop variable, \<open>None\<close> when the
  map has no such key. On a match the closure sets \<open>loc\<close> and returns false; in every
  other case it falls through to \<open>return true\<close> and leaves \<open>loc\<close> as it is.
\<close>

definition resolveEntry ::
  "(string \<Rightarrow> string) \<Rightarrow> index \<Rightarrow> string \<Rightarrow> node option \<Rightarrow> string \<Rightarrow> string \<Rightarrow> bool \<times> string"
  where
  "resolveEntry quote idx val rangeExpr key loc =
     (case asIdent rangeExpr of
        None \<Rightarrow> (True, loc)
      | Some testcasesIdent \<Rightarrow>
          (case findTestCaseItem quote (objToVarInit idx (Obj testcasesIdent)) key val
                  (objToTypeDecl idx) of
             None \<Rightarrow> (True, loc)
           | Some n \<Rightarrow> (False, sprintfLoc (Pos n))))"

text \<open>
  The two forms of the argument (lines 148 and 162): a selector \<open>ident.key\<close>, or a
  bare identifier.
\<close>

definition matchArg ::
  "(string \<Rightarrow> string) \<Rightarrow> index \<Rightarrow> string \<Rightarrow> node \<Rightarrow> string \<Rightarrow> bool \<times> string" where
  "matchArg quote idx val arg loc =
     (case isSelector arg of
        Some (ident, key) \<Rightarrow>
          resolveEntry quote idx val (objToRangeExprForValue idx (Obj ident)) key loc
      | None \<Rightarrow>
          (case asIdent (Some arg) of
             Some ident \<Rightarrow>
               resolveEntry quote idx val (objToRangeExprForKey idx (Obj ident)) (Name ident) loc
           | None \<Rightarrow> (True, loc)))"

text \<open>
  The closure of the second walk (lines 130-181); \<open>loc\<close> is the variable it sets.
  \<open>call.Args[0]\<close> (line 146) on an empty argument list is a run-time panic.
\<close>

definition matchVisit ::
  "(string \<Rightarrow> string) \<Rightarrow> index \<Rightarrow> string \<Rightarrow> int \<Rightarrow> node \<Rightarrow> string \<Rightarrow> (bool \<times> string) outcome"
  where
  "matchVisit quote idx val line n loc =
     (if Line (Pos n) \<noteq> line then Returns (True, loc)
      else case isMethodCall n ''dataloc'' ''L'' of
             None \<Rightarrow> Returns (True, loc)
           | Some call \<Rightarrow>
               (case Args call of
                  [] \<Rightarrow> Panics ''runtime error: index out of range [0] with length 0''
                | arg # args \<Rightarrow> Returns (matchArg quote idx val arg loc)))"

section \<open>\<open>loc\<close> and the public functions\<close>

text \<open>
  What \<open>loc\<close> reads from outside: the call stack (\<open>runtime.Caller\<close>, whose results
  are the file, the line and the ok flag of the frame; the program counter is dropped),
  the working directory (\<open>os.Getwd\<close>), \<open>filepath.Rel\<close>, the file system through
  \<open>parser.ParseFile\<close>, and \<open>strconv.Quote\<close>. None of them is code of this
  repository, so each is a field of the environment. A Go error is an opaque value.
\<close>

datatype error = Error string

record env =
  runtimeCaller :: "int \<Rightarrow> string \<times> int \<times> bool"
  osGetwd :: "error + string"
  filepathRel :: "string \<Rightarrow> string \<Rightarrow> error + string"
  parserParseFile :: "string \<Rightarrow> error + node"
  strconvQuote :: "string \<Rightarrow> string"

text \<open>
  The two walks over a parsed file (lines 76-183). The first walk cannot panic; the
  model threads its outcome all the same, as the code runs one walk after the other.
\<close>

definition locParsed :: "(string \<Rightarrow> string) \<Rightarrow> node \<Rightarrow> string \<Rightarrow> int \<Rightarrow> string outcome" where
  "locParsed quote f val line =
     (case Inspect indexVisit [f] emptyIndex of
        Panics msg \<Rightarrow> Panics msg
      | Returns idx \<Rightarrow> Inspect (matchVisit quote idx val line) [f] ''(unknown)'')"

text \<open>
  \<open>loc\<close> (lines 57-184) returns a string and an error, \<open>None\<close> for the nil error.
  The fourth result of \<open>runtime.Caller\<close> is assigned to the blank identifier.
\<close>

definition loc :: "env \<Rightarrow> string \<Rightarrow> int \<Rightarrow> (string \<times> error option) outcome" where
  "loc e val step =
     (case runtimeCaller e step of
        (file, line, ok) \<Rightarrow>
          (case osGetwd e of
             Inl err \<Rightarrow> Returns ('''', Some err)
           | Inr cwd \<Rightarrow>
               (case filepathRel e cwd file of
                  Inl err \<Rightarrow> Returns ('''', Some err)
                | Inr rel \<Rightarrow>
                    (case parserParseFile e rel of
                       Inl err \<Rightarrow> Returns ('''', Some err)
                     | Inr f \<Rightarrow>
                         (case locParsed (strconvQuote e) f val line of
                            Panics msg \<Rightarrow> Panics msg
                          | Returns s \<Rightarrow> Returns (s, None))))))"

text \<open>The public functions (lines 32-55): \<open>s, _ := loc(name, step); return s\<close>.\<close>

definition dropError :: "(string \<times> error option) outcome \<Rightarrow> string outcome" where
  "dropError r = (case r of Panics msg \<Rightarrow> Panics msg | Returns (s, err) \<Rightarrow> Returns s)"

definition L :: "env \<Rightarrow> string \<Rightarrow> string outcome" where
  "L e name = dropError (loc e name 2)"

definition L3 :: "env \<Rightarrow> string \<Rightarrow> string outcome" where
  "L3 e name = dropError (loc e name 3)"

definition L4 :: "env \<Rightarrow> string \<Rightarrow> string outcome" where
  "L4 e name = dropError (loc e name 4)"

definition L5 :: "env \<Rightarrow> string \<Rightarrow> string outcome" where
  "L5 e name = dropError (loc e name 5)"

definition L6 :: "env \<Rightarrow> string \<Rightarrow> string outcome" where
  "L6 e name = dropError (loc e name 6)"

section \<open>A table-driven test, parsed\<close>

text \<open>
  The file \<open>table_test.go\<close> of the examples below, in the directory \<open>/src/demo\<close>:

  \<^verbatim>\<open>1 package demo\<close>

  \<^verbatim>\<open>3 func TestTable(t *testing.T) {\<close>

  \<^verbatim>\<open>4     tests := []struct{ name string; want int }{\<close>

  \<^verbatim>\<open>5         {name: "a", want: 1},\<close>

  \<^verbatim>\<open>6         {name: "b", want: 2},\<close>

  \<^verbatim>\<open>7     }\<close>

  \<^verbatim>\<open>8     for _, tc := range tests {\<close>

  \<^verbatim>\<open>9         t.Log(dataloc.L(tc.name))\<close>

  \<^verbatim>\<open>10    }\<close>

  \<^verbatim>\<open>11 }\<close>

  \<open>tableFile decl call\<close> is its tree with the statement \<open>decl\<close> on line 4 and
  the expression \<open>call\<close> as the argument of \<open>t.Log\<close> on line 9; the objects are
  0 for \<open>TestTable\<close>, 1 for \<open>t\<close>, 2 for \<open>tests\<close>, 3 for \<open>tc\<close> and 7 for
  the blank key of the loop.
  \<open>quotePlain\<close> is what \<open>strconv.Quote\<close> returns on a string of printable ASCII
  characters without double quote and backslash: the string between double quotes.
\<close>

definition quotePlain :: "string \<Rightarrow> string" where
  "quotePlain s = CHR 0x22 # s @ [CHR 0x22]"

definition at :: "int \<Rightarrow> position" where
  "at n = \<lparr>Filename = ''table_test.go'', Line = n\<rparr>"

definition mkIdent :: "int \<Rightarrow> string \<Rightarrow> object \<Rightarrow> ident" where
  "mkIdent n s obj = \<lparr>NamePos = at n, Name = s, Obj = obj\<rparr>"

definition structNameWant :: node where
  "structNameWant = StructType (at 4)
     [Field [mkIdent 4 ''name'' (Some 4)] (Ident (mkIdent 4 ''string'' None)),
      Field [mkIdent 4 ''want'' (Some 5)] (Ident (mkIdent 4 ''int'' None))]"

definition keyedEntry :: "int \<Rightarrow> string \<Rightarrow> string \<Rightarrow> node" where
  "keyedEntry n name want = CompositeLit (at n) None
     [KeyValueExpr (at n) (Ident (mkIdent n ''name'' None)) (BasicLit (at n) token_STRING name),
      KeyValueExpr (at n) (Ident (mkIdent n ''want'' None)) (BasicLit (at n) token_INT want)]"

definition tableAB :: node where
  "tableAB = CompositeLit (at 4) (Some (ArrayType (at 4) None structNameWant))
     [keyedEntry 5 (quotePlain ''a'') ''1'', keyedEntry 6 (quotePlain ''b'') ''2'']"

definition assignTests :: "node \<Rightarrow> node" where
  "assignTests table = AssignStmt (at 4) [Ident (mkIdent 4 ''tests'' (Some 2))] [table]"

definition callOf :: "string \<Rightarrow> string \<Rightarrow> node list \<Rightarrow> node" where
  "callOf pkg fn args = CallExpr (at 9)
     (SelectorExpr (at 9) (Ident (mkIdent 9 pkg None)) (mkIdent 9 fn None)) args"

definition tcName :: node where
  "tcName = SelectorExpr (at 9) (Ident (mkIdent 9 ''tc'' (Some 3))) (mkIdent 9 ''name'' None)"

definition testTable :: "node \<Rightarrow> node \<Rightarrow> node" where
  "testTable decl call =
     FuncDecl (at 3) [Ident (mkIdent 3 ''TestTable'' (Some 0)), Other (at 3) [],
       Other (at 3)
        [decl,
         RangeStmt (at 8) (Some (Ident (mkIdent 8 ''_'' (Some 7))))
           (Some (Ident (mkIdent 8 ''tc'' (Some 3)))) (Ident (mkIdent 8 ''tests'' (Some 2)))
           (Other (at 8) [Other (at 9) [CallExpr (at 9)
              (SelectorExpr (at 9) (Ident (mkIdent 9 ''t'' (Some 1))) (mkIdent 9 ''Log'' None))
              [call]]])]]"

definition tableFile :: "node \<Rightarrow> node \<Rightarrow> node" where
  "tableFile decl call = File (at 1) [Ident (mkIdent 1 ''demo'' None), testTable decl call]"

text \<open>
  The environment of a call made on line \<open>line\<close> of that file, \<open>depth\<close> frames
  above \<open>loc\<close>, by a test run in \<open>/src/demo\<close>; \<open>f\<close> is what the file parses to.
  At any other depth \<open>runtime.Caller\<close> finds no frame.
\<close>

definition relDemo :: "string \<Rightarrow> string \<Rightarrow> error + string" where
  "relDemo base targ =
     (if base = ''/src/demo'' \<and> targ = ''/src/demo/table_test.go'' then Inr ''table_test.go''
      else Inl (Error ''Rel: cannot make path relative''))"

definition envAt :: "int \<Rightarrow> int \<Rightarrow> error + node \<Rightarrow> env" where
  "envAt line depth f = \<lparr>
     runtimeCaller = (\<lambda>step. if step = depth then (''/src/demo/table_test.go'', line, True)
                             else ('''', 0, False)),
     osGetwd = Inr ''/src/demo'',
     filepathRel = relDemo,
     parserParseFile = (\<lambda>file. if file = ''table_test.go'' then f
        else Inl (Error ''no such file or directory'')),
     strconvQuote = quotePlain\<rparr>"

definition tableEnv :: "int \<Rightarrow> error + node \<Rightarrow> env" where
  "tableEnv depth f = envAt 9 depth f"

lemmas example_defs =
  tableEnv_def envAt_def relDemo_def tableFile_def testTable_def callOf_def tcName_def
  assignTests_def tableAB_def keyedEntry_def structNameWant_def mkIdent_def at_def quotePlain_def

lemmas loc_defs =
  Inspect.simps L_def L3_def L4_def L5_def L6_def loc_def dropError_def locParsed_def indexVisit_def
  matchVisit_def matchArg_def resolveEntry_def rangeStmt_def emptyIndex_def sprintfLoc_def
  itoa_def testcaseMatch_def

text \<open>
  Variants of line 4: the table declared with \<open>var tests = ...\<close> (a declaration
  statement holding the \<open>var\<close> declaration), and a table of positional literals
  \<open>{1, 2, "x"}\<close> over \<open>struct{ a, b int; name string }\<close>.
\<close>

definition varTests :: "node \<Rightarrow> node" where
  "varTests table = Other (at 4)
     [GenDecl (at 4) token_VAR [ValueSpec (at 4) [mkIdent 4 ''tests'' (Some 2)] None [table]]]"

definition structGrouped :: node where
  "structGrouped = StructType (at 4)
     [Field [mkIdent 4 ''a'' (Some 4), mkIdent 4 ''b'' (Some 5)] (Ident (mkIdent 4 ''int'' None)),
      Field [mkIdent 4 ''name'' (Some 6)] (Ident (mkIdent 4 ''string'' None))]"

definition tableGrouped :: node where
  "tableGrouped = CompositeLit (at 4) (Some (ArrayType (at 4) None structGrouped))
     [CompositeLit (at 5) None
        [BasicLit (at 5) token_INT ''1'', BasicLit (at 5) token_INT ''2'',
         BasicLit (at 5) token_STRING (quotePlain ''x'')]]"

text \<open>The nodes \<open>ast.Inspect\<close> visits when the closure always returns true.\<close>

function preorder :: "node list \<Rightarrow> node list" where
  "preorder [] = []"
| "preorder (n # rest) = n # preorder (children n @ rest)"
  by pat_completeness auto
termination
  by (relation "measure (\<lambda>ns. sum_list (map weight ns))") (use weight_children in auto)

declare preorder.simps [simp del]

lemmas example_defs2 = varTests_def structGrouped_def tableGrouped_def

text \<open>
  A second test function in the same file, with a table and a loop variable of the
  same names as the first, and the keys in the other order:

  \<^verbatim>\<open>13 func TestOther(t *testing.T) {\<close>

  \<^verbatim>\<open>14     tests := []struct{ name string; want int }{\<close>

  \<^verbatim>\<open>15         {name: "b", want: 2},\<close>

  \<^verbatim>\<open>16         {name: "a", want: 1},\<close>

  \<^verbatim>\<open>17     }\<close>

  \<^verbatim>\<open>18     for _, tc := range tests {\<close>

  \<^verbatim>\<open>19         t.Log(dataloc.L(tc.name))\<close>

  \<^verbatim>\<open>20     }\<close>

  \<^verbatim>\<open>21 }\<close>

  Its objects are 10 for \<open>TestOther\<close>, 11 for \<open>t\<close>, 12 for \<open>tests\<close>, 13 for
  \<open>tc\<close> and 17 for the blank key of the loop.
\<close>

definition tableBA :: node where
  "tableBA = CompositeLit (at 14) (Some (ArrayType (at 14) None structNameWant))
     [keyedEntry 15 (quotePlain ''b'') ''2'', keyedEntry 16 (quotePlain ''a'') ''1'']"

definition testOther :: node where
  "testOther =
     FuncDecl (at 13) [Ident (mkIdent 13 ''TestOther'' (Some 10)), Other (at 13) [],
       Other (at 13)
        [AssignStmt (at 14) [Ident (mkIdent 14 ''tests'' (Some 12))] [tableBA],
         RangeStmt (at 18) (Some (Ident (mkIdent 18 ''_'' (Some 17))))
           (Some (Ident (mkIdent 18 ''tc'' (Some 13)))) (Ident (mkIdent 18 ''tests'' (Some 12)))
           (Other (at 18) [Other (at 19) [CallExpr (at 19)
              (SelectorExpr (at 19) (Ident (mkIdent 19 ''t'' (Some 11))) (mkIdent 19 ''Log'' None))
              [CallExpr (at 19)
                 (SelectorExpr (at 19) (Ident (mkIdent 19 ''dataloc'' None)) (mkIdent 19 ''L'' None))
                 [SelectorExpr (at 19) (Ident (mkIdent 19 ''tc'' (Some 13)))
                    (mkIdent 19 ''name'' None)]]]])]]"

definition shadowFile :: node where
  "shadowFile = File (at 1) [Ident (mkIdent 1 ''demo'' None),
     testTable (assignTests tableAB) (callOf ''dataloc'' ''L'' [tcName]), testOther]"

lemmas example_defs3 = tableBA_def testOther_def shadowFile_def

text \<open>
  The same test run from the working directory \<open>/src\<close>: \<open>filepath.Rel\<close> gives
  \<open>demo/table_test.go\<close>, the parser is given that name, and the file set reports
  every position under it. \<open>reFile name f\<close> is the tree \<open>f\<close> with \<open>name\<close> as
  the file name of every position: what the same content parses to under another name.
\<close>

definition rePos :: "string \<Rightarrow> position \<Rightarrow> position" where
  "rePos name p = p\<lparr>Filename := name\<rparr>"

definition reIdent :: "string \<Rightarrow> ident \<Rightarrow> ident" where
  "reIdent name i = i\<lparr>NamePos := rePos name (NamePos i)\<rparr>"

fun reFile :: "string \<Rightarrow> node \<Rightarrow> node" and reFileField :: "string \<Rightarrow> field \<Rightarrow> field" where
  "reFile name (Ident i) = Ident (reIdent name i)"
| "reFile name (BasicLit p kind v) = BasicLit (rePos name p) kind v"
| "reFile name (SelectorExpr p x sel) =
     SelectorExpr (rePos name p) (reFile name x) (reIdent name sel)"
| "reFile name (CallExpr p f args) =
     CallExpr (rePos name p) (reFile name f) (map (reFile name) args)"
| "reFile name (CompositeLit p ty elts) =
     CompositeLit (rePos name p) (map_option (reFile name) ty) (map (reFile name) elts)"
| "reFile name (KeyValueExpr p k v) =
     KeyValueExpr (rePos name p) (reFile name k) (reFile name v)"
| "reFile name (ArrayType p len elt) =
     ArrayType (rePos name p) (map_option (reFile name) len) (reFile name elt)"
| "reFile name (MapType p k v) = MapType (rePos name p) (reFile name k) (reFile name v)"
| "reFile name (StructType p flds) = StructType (rePos name p) (map (reFileField name) flds)"
| "reFile name (RangeStmt p k v x body) =
     RangeStmt (rePos name p) (map_option (reFile name) k) (map_option (reFile name) v)
       (reFile name x) (reFile name body)"
| "reFile name (AssignStmt p lhs rhs) =
     AssignStmt (rePos name p) (map (reFile name) lhs) (map (reFile name) rhs)"
| "reFile name (GenDecl p tok specs) = GenDecl (rePos name p) tok (map (reFile name) specs)"
| "reFile name (ValueSpec p names ty vals) =
     ValueSpec (rePos name p) (map (reIdent name) names) (map_option (reFile name) ty)
       (map (reFile name) vals)"
| "reFile name (TypeSpec p nm ty) = TypeSpec (rePos name p) (reIdent name nm) (reFile name ty)"
| "reFile name (FuncDecl p cs) = FuncDecl (rePos name p) (map (reFile name) cs)"
| "reFile name (File p cs) = File (rePos name p) (map (reFile name) cs)"
| "reFile name (Other p cs) = Other (rePos name p) (map (reFile name) cs)"
| "reFileField name (Field names ty) = Field (map (reIdent name) names) (reFile name ty)"

definition relSrc :: "string \<Rightarrow> string \<Rightarrow> error + string" where
  "relSrc base targ =
     (if base = ''/src'' \<and> targ = ''/src/demo/table_test.go'' then Inr ''demo/table_test.go''
      else Inl (Error ''Rel: cannot make path relative''))"

definition envAtSrc :: "int \<Rightarrow> int \<Rightarrow> node \<Rightarrow> env" where
  "envAtSrc line depth f = \<lparr>
     runtimeCaller = (\<lambda>step. if step = depth then (''/src/demo/table_test.go'', line, True)
                             else ('''', 0, False)),
     osGetwd = Inr ''/src'',
     filepathRel = relSrc,
     parserParseFile = (\<lambda>file. if file = ''demo/table_test.go''
        then Inr (reFile ''demo/table_test.go'' f)
        else Inl (Error ''no such file or directory'')),
     strconvQuote = quotePlain\<rparr>"

lemmas example_defs4 = envAtSrc_def relSrc_def rePos_def reIdent_def

section \<open>The two walks\<close>

text \<open>
  The first walk never panics and never prunes: it folds \<open>indexNode\<close> over the nodes
  of the tree in the order of the walk.
\<close>

lemma Inspect_indexVisit:
  "Inspect indexVisit ns idx = Returns (foldl (\<lambda>i n. indexNode n i) idx (preorder ns))"
proof (induction ns arbitrary: idx rule: preorder.induct)
  case 1
  show ?case by (simp add: Inspect.simps preorder.simps)
next
  case (2 n rest)
  have "Inspect indexVisit (n # rest) idx
          = Inspect indexVisit (children n @ rest) (indexNode n idx)"
    by (subst Inspect.simps) (simp add: indexVisit_def)
  then show ?case by (simp add: "2.IH" preorder.simps)
qed

text \<open>A property of the captured variables that every call of the closure keeps.\<close>

lemma Inspect_invariant:
  assumes "Inspect f ns s = Returns r"
    and "Q s"
    and "\<And>n s b s'. Q s \<Longrightarrow> f n s = Returns (b, s') \<Longrightarrow> Q s'"
  shows "Q r"
  using assms
proof (induction f ns s rule: Inspect.induct)
  case (1 f s)
  then show ?case by (simp add: Inspect.simps)
next
  case (2 f n rest s)
  from "2.prems"(1) obtain b s' where step: "f n s = Returns (b, s')"
    by (cases "f n s") (auto simp: Inspect.simps)
  with "2.prems"(1) have run: "Inspect f ((if b then children n else []) @ rest) s' = Returns r"
    by (simp add: Inspect.simps)
  have "Q s'" using "2.prems"(2,3) step by blast
  then show ?case using "2.IH" [OF step refl run] "2.prems"(3) by blast
qed

text \<open>
  The second walk sets \<open>loc\<close> only at a node of the resolved line that
  \<open>isMethodCall\<close> accepts; it panics only at such a node.
\<close>

lemma isMethodCall_Some:
  "isMethodCall n obj fn = Some c \<longleftrightarrow>
     (\<exists>p q x sel args. n = CallExpr p (SelectorExpr q (Ident x) sel) args
        \<and> Name x = obj \<and> Name sel = fn \<and> c = n)"
proof (cases n)
  case (CallExpr p f args)
  show ?thesis
  proof (cases "isSelector f")
    case None
    then show ?thesis using CallExpr by (auto elim: isSelector.elims)
  next
    case (Some a)
    then show ?thesis using CallExpr by (cases a) (auto elim!: isSelector.elims)
  qed
qed simp_all

lemma matchVisit_other_node:
  assumes "Line (Pos n) = line \<longrightarrow> isMethodCall n ''dataloc'' ''L'' = None"
  shows "matchVisit quote idx val line n cur = Returns (True, cur)"
  using assms by (simp add: matchVisit_def)

lemma Inspect_matchVisit_no_call:
  assumes "\<forall>n \<in> set (preorder ns). Line (Pos n) = line \<longrightarrow> isMethodCall n ''dataloc'' ''L'' = None"
  shows "Inspect (matchVisit quote idx val line) ns cur = Returns cur"
  using assms
proof (induction ns rule: preorder.induct)
  case 1
  show ?case by (simp add: Inspect.simps)
next
  case (2 n rest)
  from "2.prems" have here: "matchVisit quote idx val line n cur = Returns (True, cur)"
    by (intro matchVisit_other_node) (simp add: preorder.simps)
  from "2.prems" have "Inspect (matchVisit quote idx val line) (children n @ rest) cur = Returns cur"
    by (intro "2.IH") (simp add: preorder.simps)
  with here show ?case by (simp add: Inspect.simps)
qed

lemma matchArg_result:
  "matchArg quote idx val arg cur = (b, s) \<Longrightarrow> s = cur \<or> (\<exists>pos. s = sprintfLoc pos)"
  by (auto simp: matchArg_def resolveEntry_def split: option.splits prod.splits)

lemma matchVisit_result:
  assumes "matchVisit quote idx val line n cur = Returns (b, s)"
  shows "s = cur \<or> (\<exists>pos. s = sprintfLoc pos)"
  using assms matchArg_result
  by (auto simp: matchVisit_def split: if_splits option.splits list.splits)

lemma locParsed_result:
  assumes "locParsed quote f val line = Returns s"
  shows "s = ''(unknown)'' \<or> (\<exists>pos. s = sprintfLoc pos)"
proof -
  let ?idx = "foldl (\<lambda>i n. indexNode n i) emptyIndex (preorder [f])"
  from assms have run: "Inspect (matchVisit quote ?idx val line) [f] ''(unknown)'' = Returns s"
    by (simp add: locParsed_def Inspect_indexVisit)
  show ?thesis
  proof (rule Inspect_invariant [OF run])
    show "''(unknown)'' = ''(unknown)'' \<or> (\<exists>pos. ''(unknown)'' = sprintfLoc pos)" by simp
  next
    fix n s b s'
    assume "s = ''(unknown)'' \<or> (\<exists>pos. s = sprintfLoc pos)"
      and "matchVisit quote ?idx val line n s = Returns (b, s')"
    then show "s' = ''(unknown)'' \<or> (\<exists>pos. s' = sprintfLoc pos)"
      using matchVisit_result by blast
  qed
qed

text \<open>The public functions are \<open>loc\<close> at the depths 2 to 6, with the error dropped.\<close>

lemma wrappers:
  assumes "(w, step) \<in> set [(L, 2), (L3, 3), (L4, 4), (L5, 5), (L6, 6)]"
  shows "w e name = dropError (loc e name step)"
  using assms by (auto simp: L_def L3_def L4_def L5_def L6_def)

lemma loc_getwd_fails:
  "osGetwd e = Inl err \<Longrightarrow> loc e val step = Returns ('''', Some err)"
  by (simp add: loc_def split: prod.splits)

lemma loc_rel_fails:
  "runtimeCaller e step = (file, line, ok) \<Longrightarrow> osGetwd e = Inr cwd
   \<Longrightarrow> filepathRel e cwd file = Inl err \<Longrightarrow> loc e val step = Returns ('''', Some err)"
  by (simp add: loc_def)

lemma loc_parse_fails:
  "runtimeCaller e step = (file, line, ok) \<Longrightarrow> osGetwd e = Inr cwd
   \<Longrightarrow> filepathRel e cwd file = Inr rel \<Longrightarrow> parserParseFile e rel = Inl err
   \<Longrightarrow> loc e val step = Returns ('''', Some err)"
  by (simp add: loc_def)

lemma loc_parsed:
  "runtimeCaller e step = (file, line, ok) \<Longrightarrow> osGetwd e = Inr cwd
   \<Longrightarrow> filepathRel e cwd file = Inr rel \<Longrightarrow> parserParseFile e rel = Inr f
   \<Longrightarrow> dropError (loc e val step) = locParsed (strconvQuote e) f val line"
  by (simp add: loc_def dropError_def split: outcome.splits)

lemma loc_returns:
  assumes "dropError (loc e val step) = Returns s"
  shows "s = '''' \<or> s = ''(unknown)'' \<or> (\<exists>pos. s = sprintfLoc pos)"
proof -
  obtain fl ln ok where c: "runtimeCaller e step = (fl, ln, ok)"
    by (cases "runtimeCaller e step") auto
  show ?thesis
  proof (cases "osGetwd e")
    case (Inl err)
    with assms show ?thesis by (simp add: loc_getwd_fails dropError_def)
  next
    case cwd: (Inr cwd)
    show ?thesis
    proof (cases "filepathRel e cwd fl")
      case (Inl err)
      with assms c cwd show ?thesis by (simp add: loc_rel_fails dropError_def)
    next
      case rel: (Inr rel)
      show ?thesis
      proof (cases "parserParseFile e rel")
        case (Inl err)
        with assms c cwd rel show ?thesis by (simp add: loc_parse_fails dropError_def)
      next
        case (Inr f)
        with assms c cwd rel have "locParsed (strconvQuote e) f val ln = Returns s"
          by (simp add: loc_parsed)
        then show ?thesis using locParsed_result by blast
      qed
    qed
  qed
qed

lemma preorder_append: "preorder (xs @ ys) = preorder xs @ preorder ys"
proof (induction xs rule: preorder.induct)
  case 1
  show ?case by (simp add: preorder.simps)
next
  case (2 n rest)
  then show ?case by (simp add: preorder.simps)
qed

text \<open>
  The second walk panics nowhere else: when every call written \<open>dataloc.L\<close> on the
  resolved line has an argument, it returns.
\<close>

lemma matchVisit_returns:
  assumes "Line (Pos n) = line \<longrightarrow> (\<forall>c. isMethodCall n ''dataloc'' ''L'' = Some c \<longrightarrow> Args c \<noteq> [])"
  shows "\<exists>r. matchVisit quote idx val line n cur = Returns r"
proof (cases "Line (Pos n) = line")
  case False
  then show ?thesis by (auto simp: matchVisit_def)
next
  case True
  show ?thesis
  proof (cases "isMethodCall n ''dataloc'' ''L''")
    case None
    with True show ?thesis by (auto simp: matchVisit_def)
  next
    case (Some c)
    with assms True obtain arg args where "Args c = arg # args"
      by (cases "Args c") auto
    with Some True show ?thesis
      by (auto simp: matchVisit_def)
  qed
qed

lemma Inspect_matchVisit_returns:
  assumes "f = matchVisit quote idx val line"
    and "\<forall>n \<in> set (preorder ns). Line (Pos n) = line \<longrightarrow>
           (\<forall>c. isMethodCall n ''dataloc'' ''L'' = Some c \<longrightarrow> Args c \<noteq> [])"
  shows "\<exists>r. Inspect f ns cur = Returns r"
  using assms
proof (induction f ns cur rule: Inspect.induct)
  case (1 f s)
  show ?case by (simp add: Inspect.simps)
next
  case (2 f n rest s)
  from "2.prems"(2) have "Line (Pos n) = line \<longrightarrow>
      (\<forall>c. isMethodCall n ''dataloc'' ''L'' = Some c \<longrightarrow> Args c \<noteq> [])"
    by (simp add: preorder.simps)
  from matchVisit_returns [OF this, of quote idx val s] "2.prems"(1)
  obtain b s' where step: "f n s = Returns (b, s')" by (metis prod.exhaust)
  have "set (preorder ((if b then children n else []) @ rest)) \<subseteq> set (preorder (n # rest))"
    by (auto simp: preorder.simps preorder_append)
  with "2.prems"(2)
  have "\<forall>m \<in> set (preorder ((if b then children n else []) @ rest)). Line (Pos m) = line \<longrightarrow>
           (\<forall>c. isMethodCall m ''dataloc'' ''L'' = Some c \<longrightarrow> Args c \<noteq> [])"
    by blast
  from "2.IH" [OF step refl "2.prems"(1) this] step show ?case
    by (simp add: Inspect.simps)
qed

lemma locParsed_returns:
  assumes "\<forall>n \<in> set (preorder [f]). Line (Pos n) = line \<longrightarrow>
           (\<forall>c. isMethodCall n ''dataloc'' ''L'' = Some c \<longrightarrow> Args c \<noteq> [])"
  shows "\<exists>r. locParsed quote f val line = Returns r"
  using Inspect_matchVisit_returns [OF refl assms]
  by (simp add: locParsed_def Inspect_indexVisit)

text \<open>
  The same for a property that only the calls of the closure on the nodes of the walk
  keep.
\<close>

lemma Inspect_invariant_nodes:
  assumes "Inspect f ns s = Returns r"
    and "Q s"
    and "\<forall>n \<in> set (preorder ns). \<forall>s b s'. Q s \<longrightarrow> f n s = Returns (b, s') \<longrightarrow> Q s'"
  shows "Q r"
  using assms
proof (induction f ns s rule: Inspect.induct)
  case (1 f s)
  then show ?case by (simp add: Inspect.simps)
next
  case (2 f n rest s)
  from "2.prems"(1) obtain b s' where step: "f n s = Returns (b, s')"
    by (cases "f n s") (auto simp: Inspect.simps)
  with "2.prems"(1) have run: "Inspect f ((if b then children n else []) @ rest) s' = Returns r"
    by (simp add: Inspect.simps)
  have "n \<in> set (preorder (n # rest))" by (simp add: preorder.simps)
  with "2.prems"(2,3) step have "Q s'" by blast
  moreover
  have "set (preorder ((if b then children n else []) @ rest)) \<subseteq> set (preorder (n # rest))"
    by (auto simp: preorder.simps preorder_append)
  with "2.prems"(3)
  have "\<forall>m \<in> set (preorder ((if b then children n else []) @ rest)).
          \<forall>s b s'. Q s \<longrightarrow> f m s = Returns (b, s') \<longrightarrow> Q s'"
    by blast
  ultimately show ?case using "2.IH" [OF step refl run] by blast
qed

text \<open>
  No call on the resolved line resolves to an entry (a binding is missing, the table
  is not a literal, no entry matches): the second walk leaves \<open>"(unknown)"\<close>.
\<close>

lemma locParsed_no_match:
  assumes "Inspect indexVisit [f] emptyIndex = Returns idx"
    and "\<forall>n \<in> set (preorder [f]). \<forall>c arg args.
           Line (Pos n) = line \<and> isMethodCall n ''dataloc'' ''L'' = Some c \<and> Args c = arg # args
           \<longrightarrow> matchArg quote idx val arg ''(unknown)'' = (True, ''(unknown)'')"
    and "locParsed quote f val line = Returns s"
  shows "s = ''(unknown)''"
proof -
  from assms(1,3) have run: "Inspect (matchVisit quote idx val line) [f] ''(unknown)'' = Returns s"
    by (simp add: locParsed_def)
  have keep: "\<forall>n \<in> set (preorder [f]). \<forall>s b s'. s = ''(unknown)''
      \<longrightarrow> matchVisit quote idx val line n s = Returns (b, s') \<longrightarrow> s' = ''(unknown)''"
  proof (intro ballI allI impI)
    fix n s b s'
    assume n: "n \<in> set (preorder [f])" and s: "s = ''(unknown)''"
      and v: "matchVisit quote idx val line n s = Returns (b, s')"
    show "s' = ''(unknown)''"
    proof (cases "Line (Pos n) = line")
      case False
      with v s show ?thesis by (simp add: matchVisit_def)
    next
      case True
      show ?thesis
      proof (cases "isMethodCall n ''dataloc'' ''L''")
        case None
        with v s True show ?thesis by (simp add: matchVisit_def)
      next
        case (Some c)
        show ?thesis
        proof (cases "Args c")
          case Nil
          with v Some True show ?thesis by (simp add: matchVisit_def)
        next
          case (Cons arg args)
          with assms(2) n True Some
          have "matchArg quote idx val arg ''(unknown)'' = (True, ''(unknown)'')" by blast
          with v s True Some Cons show ?thesis by (simp add: matchVisit_def)
        qed
      qed
    qed
  qed
  from Inspect_invariant_nodes [OF run refl keep] show ?thesis .
qed

section \<open>The struct field indexer\<close>

text \<open>
  C3 (the code departs from the claim). The claim: the indexer returns the zero-based
  position of the first field with the name, counting each individually declared name.
  \<open>findStructFieldIndex\<close> returns the index of the entry of the field list that
  holds the name, and an entry holds all the names declared together: in
  \<open>struct{ a, b int; name string }\<close> it gives \<open>name\<close> the index 1, where the third
  element of a positional literal stands at index 2. So the entry \<open>{1, 2, "x"}\<close> of
  such a table is not found.
\<close>

theorem findStructFieldIndex_counts_groups:
  "findStructFieldIndex structGrouped ''name'' = 1
   \<and> L (tableEnv 2 (Inr (tableFile (assignTests tableGrouped) (callOf ''dataloc'' ''L'' [tcName]))))
        ''x'' = Returns ''(unknown)''"
  by (simp add: loc_defs example_defs example_defs2)

section \<open>Variable declarations in the binding index\<close>

text \<open>
  C2 (the code departs from the claim). The claim: a \<open>var\<close> declaration with as many
  names as initializers records, for every name, the initializer at its position; so
  \<open>var x = expr\<close> maps \<open>x\<close> to \<open>expr\<close>. The loop of lines 97-101 records
  \<open>Values[i]\<close> only when \<open>i < len(Values) - 1\<close>: the last name never gets its
  initializer (\<open>var x, y = expr, expr'\<close> records \<open>expr\<close> for \<open>x\<close> and nothing for
  \<open>y\<close>), and a declaration of one name with one initializer records nothing. A
  table declared with \<open>var tests = ...\<close> is therefore not found, where the same table
  declared with \<open>tests := ...\<close> is (the assignment branch, lines 113-123, pairs by
  position).
\<close>

theorem var_single_initializer_not_recorded:
  "objToVarInit (indexNode (GenDecl p token_VAR [ValueSpec q [x] ty [expr]]) idx) = objToVarInit idx
   \<and> objToVarInit (indexNode (GenDecl p token_VAR [ValueSpec q [x, y] ty [expr, expr']]) idx)
        = (objToVarInit idx)(Obj x \<mapsto> expr)
   \<and> L (tableEnv 2 (Inr (tableFile (varTests tableAB) (callOf ''dataloc'' ''L'' [tcName]))))
        ''a'' = Returns ''(unknown)''
   \<and> L (tableEnv 2 (Inr (tableFile (assignTests tableAB) (callOf ''dataloc'' ''L'' [tcName]))))
        ''a'' = Returns ''table_test.go:5''"
  by (simp add: loc_defs example_defs example_defs2 digits.simps)

section \<open>Panics\<close>

text \<open>
  C6 (the code departs from the claim). The claim: resolution never panics, also when
  the call to \<open>dataloc.L\<close> at the resolved line is written with no argument. Line 146
  reads \<open>call.Args[0]\<close> with no check of the length: on the line
  \<open>t.Log(dataloc.L())\<close> the second walk panics, and the public function with it.
\<close>

theorem L_panics_on_call_without_arguments:
  "L (tableEnv 2 (Inr (tableFile (assignTests tableAB) (callOf ''dataloc'' ''L'' [])))) ''a''
     = Panics ''runtime error: index out of range [0] with length 0''"
  by (simp add: loc_defs example_defs)

section \<open>String literals\<close>

text \<open>
  C5. A literal matches the sought string exactly when it is a string literal whose
  token, as written in the source, equals \<open>strconv.Quote\<close> of the string; a string
  literal with any other token does not match, whatever value it denotes.
\<close>

theorem isStringLiteral_compares_tokens:
  "(isStringLiteral quote n s \<longleftrightarrow> (\<exists>p. n = BasicLit p token_STRING (quote s)))
   \<and> (tok \<noteq> quote s \<longrightarrow> \<not> isStringLiteral quote (BasicLit p' kind tok) s)"
  by (cases n) auto

text \<open>
  The raw string literal of \<open>a\<close> (between back quotes) and the literal with the
  escape \<open>\x61\<close> both denote the string \<open>a\<close>; neither matches it.
\<close>

theorem isStringLiteral_compares_tokens_witness:
  "[CHR 0x60, CHR ''a'', CHR 0x60] \<noteq> quotePlain ''a''
   \<and> \<not> isStringLiteral quotePlain (BasicLit (at 5) token_STRING [CHR 0x60, CHR ''a'', CHR 0x60]) ''a''
   \<and> \<not> isStringLiteral quotePlain
         (BasicLit (at 5) token_STRING [CHR 0x22, CHR 0x5C, CHR ''x'', CHR ''6'', CHR ''1'', CHR 0x22]) ''a''
   \<and> isStringLiteral quotePlain (BasicLit (at 5) token_STRING [CHR 0x22, CHR ''a'', CHR 0x22]) ''a''"
  using isStringLiteral_compares_tokens
    [of quotePlain "BasicLit (at 5) token_STRING [CHR 0x22, CHR ''a'', CHR 0x22]" "''a''"
        "[CHR 0x60, CHR ''a'', CHR 0x60]" "at 5" token_STRING]
  by (simp add: quotePlain_def)

section \<open>What the public functions return\<close>

text \<open>
  C1 (amended). The claim: every failure path returns the one string \<open>"unknown"\<close>,
  and the public functions return nothing but \<open>"path:line"\<close> and that string. In the
  code a failure of \<open>os.Getwd\<close>, of \<open>filepath.Rel\<close> or of the parser makes
  \<open>loc\<close> return the empty string with the error, and the public functions drop the
  error and return the empty string; a file that parses but yields no match gives
  \<open>"(unknown)"\<close>, with the parentheses. Amended: whenever a public function returns,
  it returns the empty string (the working directory, the relative path or the parse
  failed), \<open>"(unknown)"\<close> (the file parsed and nothing matched) or the file name and
  line of a position, \<open>"path:line"\<close>. Nothing matched: no call written
  \<open>dataloc.L\<close> on the resolved line has an argument that resolves to an entry of a
  table, be it that a binding is missing or that no entry has the key.
\<close>

theorem public_functions_results:
  assumes "(w, step) \<in> set [(L, 2), (L3, 3), (L4, 4), (L5, 5), (L6, 6)]"
    and "runtimeCaller e step = (fname, line, ok)"
  shows "(osGetwd e = Inl err \<longrightarrow> w e name = Returns '''')
    \<and> (osGetwd e = Inr cwd \<and> filepathRel e cwd fname = Inl err \<longrightarrow> w e name = Returns '''')
    \<and> (osGetwd e = Inr cwd \<and> filepathRel e cwd fname = Inr rel \<and> parserParseFile e rel = Inl err
          \<longrightarrow> w e name = Returns '''')
    \<and> (osGetwd e = Inr cwd \<and> filepathRel e cwd fname = Inr rel \<and> parserParseFile e rel = Inr f
          \<and> w e name = Returns s
          \<longrightarrow> s = ''(unknown)'' \<or> (\<exists>pos::position. s = Filename pos @ '':'' @ itoa (Line pos)))
    \<and> (osGetwd e = Inr cwd \<and> filepathRel e cwd fname = Inr rel \<and> parserParseFile e rel = Inr f
          \<and> Inspect indexVisit [f] emptyIndex = Returns idx
          \<and> (\<forall>n \<in> set (preorder [f]). \<forall>c arg args.
                Line (Pos n) = line \<and> isMethodCall n ''dataloc'' ''L'' = Some c
                \<and> Args c = arg # args
                \<longrightarrow> matchArg (strconvQuote e) idx name arg ''(unknown)'' = (True, ''(unknown)''))
          \<and> w e name = Returns s
          \<longrightarrow> s = ''(unknown)'')
    \<and> (w e name = Returns s
          \<longrightarrow> s = '''' \<or> s = ''(unknown)'' \<or> (\<exists>pos::position. s = Filename pos @ '':'' @ itoa (Line pos)))"
proof -
  note w = wrappers [OF assms(1)]
  have a: "osGetwd e = Inl err \<longrightarrow> w e name = Returns ''''"
    by (simp add: w loc_getwd_fails dropError_def)
  have b: "osGetwd e = Inr cwd \<and> filepathRel e cwd fname = Inl err \<longrightarrow> w e name = Returns ''''"
    using assms(2) by (simp add: w loc_rel_fails dropError_def)
  have c: "osGetwd e = Inr cwd \<and> filepathRel e cwd fname = Inr rel \<and> parserParseFile e rel = Inl err
          \<longrightarrow> w e name = Returns ''''"
    using assms(2) by (simp add: w loc_parse_fails dropError_def)
  have d: "osGetwd e = Inr cwd \<and> filepathRel e cwd fname = Inr rel \<and> parserParseFile e rel = Inr f
          \<and> w e name = Returns s
          \<longrightarrow> s = ''(unknown)'' \<or> (\<exists>pos::position. s = Filename pos @ '':'' @ itoa (Line pos))"
  proof (intro impI, elim conjE)
    assume "osGetwd e = Inr cwd" "filepathRel e cwd fname = Inr rel"
      "parserParseFile e rel = Inr f" "w e name = Returns s"
    with assms(2) have "locParsed (strconvQuote e) f name line = Returns s"
      by (simp add: w loc_parsed)
    from locParsed_result [OF this, unfolded sprintfLoc_def]
    show "s = ''(unknown)'' \<or> (\<exists>pos::position. s = Filename pos @ '':'' @ itoa (Line pos))"
      .
  qed
  have e: "w e name = Returns s
          \<longrightarrow> s = '''' \<or> s = ''(unknown)'' \<or> (\<exists>pos::position. s = Filename pos @ '':'' @ itoa (Line pos))"
  proof
    assume "w e name = Returns s"
    then have "dropError (loc e name step) = Returns s" by (simp add: w)
    from loc_returns [OF this, unfolded sprintfLoc_def]
    show "s = '''' \<or> s = ''(unknown)'' \<or> (\<exists>pos::position. s = Filename pos @ '':'' @ itoa (Line pos))"
      .
  qed
  have g: "osGetwd e = Inr cwd \<and> filepathRel e cwd fname = Inr rel \<and> parserParseFile e rel = Inr f
          \<and> Inspect indexVisit [f] emptyIndex = Returns idx
          \<and> (\<forall>n \<in> set (preorder [f]). \<forall>c arg args.
                Line (Pos n) = line \<and> isMethodCall n ''dataloc'' ''L'' = Some c
                \<and> Args c = arg # args
                \<longrightarrow> matchArg (strconvQuote e) idx name arg ''(unknown)'' = (True, ''(unknown)''))
          \<and> w e name = Returns s
          \<longrightarrow> s = ''(unknown)''"
  proof (intro impI, elim conjE)
    assume "osGetwd e = Inr cwd" "filepathRel e cwd fname = Inr rel"
      "parserParseFile e rel = Inr f" "w e name = Returns s"
      and idx: "Inspect indexVisit [f] emptyIndex = Returns idx"
      and none: "\<forall>n \<in> set (preorder [f]). \<forall>c arg args.
                Line (Pos n) = line \<and> isMethodCall n ''dataloc'' ''L'' = Some c
                \<and> Args c = arg # args
                \<longrightarrow> matchArg (strconvQuote e) idx name arg ''(unknown)'' = (True, ''(unknown)'')"
    with assms(2) have "locParsed (strconvQuote e) f name line = Returns s"
      by (simp add: w loc_parsed)
    from locParsed_no_match [OF idx none this] show "s = ''(unknown)''" .
  qed
  from a b c d e g show ?thesis by blast
qed

text \<open>
  The file does not parse: \<open>L\<close> returns the empty string. The file parses and the key
  is in no entry: \<open>L\<close> returns \<open>"(unknown)"\<close>.
\<close>

theorem public_functions_results_witness:
  "(L, 2::int) \<in> set [(L, 2), (L3, 3), (L4, 4), (L5, 5), (L6, 6)]
   \<and> runtimeCaller (tableEnv 2 (Inl (Error ''syntax error''))) 2 = (''/src/demo/table_test.go'', 9, True)
   \<and> osGetwd (tableEnv 2 (Inl (Error ''syntax error''))) = Inr ''/src/demo''
   \<and> filepathRel (tableEnv 2 (Inl (Error ''syntax error''))) ''/src/demo'' ''/src/demo/table_test.go''
        = Inr ''table_test.go''
   \<and> parserParseFile (tableEnv 2 (Inl (Error ''syntax error''))) ''table_test.go''
        = Inl (Error ''syntax error'')
   \<and> L (tableEnv 2 (Inl (Error ''syntax error''))) ''a'' = Returns ''''"
  using public_functions_results
    [where w = L and step = 2 and e = "tableEnv 2 (Inl (Error ''syntax error''))"
       and fname = "''/src/demo/table_test.go''" and line = 9 and ok = True and name = "''a''"
       and cwd = "''/src/demo''" and rel = "''table_test.go''" and err = "Error ''syntax error''"
       and f = "File (at 1) []" and s = "[]" and idx = emptyIndex]
  by (simp add: tableEnv_def envAt_def relDemo_def)

theorem failures_are_not_one_sentinel:
  "L (tableEnv 2 (Inl (Error ''syntax error''))) ''a'' = Returns ''''
   \<and> L (tableEnv 2 (Inl (Error ''syntax error''))) ''a'' \<noteq> Returns ''unknown''
   \<and> L (tableEnv 2 (Inr (tableFile (assignTests tableAB) (callOf ''dataloc'' ''L'' [tcName]))))
        ''zzz'' = Returns ''(unknown)''
   \<and> L (tableEnv 2 (Inr (tableFile (assignTests tableAB) (callOf ''dataloc'' ''L'' [tcName]))))
        ''zzz'' \<noteq> Returns ''unknown''"
  by (simp add: loc_defs example_defs)

section \<open>The caller location\<close>

text \<open>
  C7 (amended). The claim: the resolver fails with a propagated error when the depth
  exceeds the stack, when the working directory cannot be obtained and when the path
  cannot be made relative, and each public function turns that failure into
  \<open>"unknown"\<close>. Amended: \<open>loc\<close> returns the error of \<open>os.Getwd\<close> and the error
  of \<open>filepath.Rel\<close> as its own error, with the empty string, and each public
  function then returns the empty string. \<open>loc\<close> does not read the ok flag of
  \<open>runtime.Caller\<close>: at a depth beyond the stack it goes on with the file name and
  line that \<open>runtime.Caller\<close> gave, and fails when \<open>filepath.Rel\<close> rejects that
  file name.
\<close>

theorem caller_errors_propagate:
  assumes "(w, step) \<in> set [(L, 2), (L3, 3), (L4, 4), (L5, 5), (L6, 6)]"
    and "runtimeCaller e step = (fname, line, ok)"
  shows "(osGetwd e = Inl err
            \<longrightarrow> loc e val step = Returns ('''', Some err) \<and> w e val = Returns '''')
    \<and> (osGetwd e = Inr cwd \<and> filepathRel e cwd fname = Inl err
            \<longrightarrow> loc e val step = Returns ('''', Some err) \<and> w e val = Returns '''')
    \<and> loc (e\<lparr>runtimeCaller := (runtimeCaller e)(step := (fname, line, flag))\<rparr>) val step
          = loc e val step"
proof -
  note w = wrappers [OF assms(1)]
  have a: "osGetwd e = Inl err
            \<longrightarrow> loc e val step = Returns ('''', Some err) \<and> w e val = Returns ''''"
    by (simp add: w loc_getwd_fails dropError_def)
  have b: "osGetwd e = Inr cwd \<and> filepathRel e cwd fname = Inl err
            \<longrightarrow> loc e val step = Returns ('''', Some err) \<and> w e val = Returns ''''"
    using assms(2) by (simp add: w loc_rel_fails dropError_def)
  have c: "loc (e\<lparr>runtimeCaller := (runtimeCaller e)(step := (fname, line, flag))\<rparr>) val step
          = loc e val step"
    using assms(2) by (simp add: loc_def split: sum.splits outcome.splits)
  from a b c show ?thesis by blast
qed

text \<open>
  No working directory: \<open>loc\<close> returns the error of \<open>os.Getwd\<close>, \<open>L\<close> the empty
  string. No frame at depth 3: \<open>runtime.Caller\<close> gives the empty file name, which
  \<open>filepath.Rel\<close> rejects, and \<open>L3\<close> returns the empty string.
\<close>

theorem caller_errors_propagate_witness:
  "(L, 2::int) \<in> set [(L, 2), (L3, 3), (L4, 4), (L5, 5), (L6, 6)]
   \<and> runtimeCaller ((tableEnv 2 (Inl (Error ''syntax error'')))\<lparr>osGetwd := Inl (Error ''getwd failed'')\<rparr>) 2
        = (''/src/demo/table_test.go'', 9, True)
   \<and> osGetwd ((tableEnv 2 (Inl (Error ''syntax error'')))\<lparr>osGetwd := Inl (Error ''getwd failed'')\<rparr>)
        = Inl (Error ''getwd failed'')
   \<and> loc ((tableEnv 2 (Inl (Error ''syntax error'')))\<lparr>osGetwd := Inl (Error ''getwd failed'')\<rparr>) ''a'' 2
        = Returns ('''', Some (Error ''getwd failed''))
   \<and> L ((tableEnv 2 (Inl (Error ''syntax error'')))\<lparr>osGetwd := Inl (Error ''getwd failed'')\<rparr>) ''a''
        = Returns ''''"
  using caller_errors_propagate
    [where w = L and step = 2
       and e = "(tableEnv 2 (Inl (Error ''syntax error'')))\<lparr>osGetwd := Inl (Error ''getwd failed'')\<rparr>"
       and fname = "''/src/demo/table_test.go''" and line = 9 and ok = True
       and err = "Error ''getwd failed''" and val = "''a''" and cwd = "[]" and flag = True]
  by (simp add: tableEnv_def envAt_def)

theorem caller_failure_is_not_unknown:
  "loc ((tableEnv 2 (Inl (Error ''syntax error'')))\<lparr>osGetwd := Inl (Error ''getwd failed'')\<rparr>) ''a'' 2
        = Returns ('''', Some (Error ''getwd failed''))
   \<and> L ((tableEnv 2 (Inl (Error ''syntax error'')))\<lparr>osGetwd := Inl (Error ''getwd failed'')\<rparr>) ''a''
        \<noteq> Returns ''unknown''
   \<and> runtimeCaller (tableEnv 2 (Inl (Error ''syntax error''))) 3 = ('''', 0, False)
   \<and> L3 (tableEnv 2 (Inl (Error ''syntax error''))) ''a'' \<noteq> Returns ''unknown''"
  by (simp add: loc_defs tableEnv_def envAt_def relDemo_def)

section \<open>The callee the site matcher accepts\<close>

text \<open>
  C10. The second walk acts only on a call whose callee is written as the selector
  \<open>dataloc.L\<close>. When no node on the resolved line is such a call (the callee is
  \<open>dataloc.L3\<close>, a renamed import, a bare \<open>L\<close>), \<open>loc\<close> returns
  \<open>"(unknown)"\<close> at every depth, and so does the public function of that depth.
\<close>

theorem only_dataloc_L_is_matched:
  assumes "(w, step) \<in> set [(L, 2), (L3, 3), (L4, 4), (L5, 5), (L6, 6)]"
    and "runtimeCaller e step = (fname, line, ok)"
    and "osGetwd e = Inr cwd"
    and "filepathRel e cwd fname = Inr rel"
    and "parserParseFile e rel = Inr f"
    and "\<forall>n \<in> set (preorder [f]). Line (Pos n) = line \<longrightarrow>
           \<not> (\<exists>p q x sel args. n = CallExpr p (SelectorExpr q (Ident x) sel) args
                  \<and> Name x = ''dataloc'' \<and> Name sel = ''L'')"
  shows "loc e val step = Returns (''(unknown)'', None) \<and> w e val = Returns ''(unknown)''"
proof -
  have "\<forall>n \<in> set (preorder [f]). Line (Pos n) = line \<longrightarrow> isMethodCall n ''dataloc'' ''L'' = None"
  proof (intro ballI impI)
    fix n
    assume n: "n \<in> set (preorder [f])" "Line (Pos n) = line"
    show "isMethodCall n ''dataloc'' ''L'' = None"
    proof (cases "isMethodCall n ''dataloc'' ''L''")
      case None
      then show ?thesis .
    next
      case (Some c)
      then have "\<exists>p q x sel args. n = CallExpr p (SelectorExpr q (Ident x) sel) args
                  \<and> Name x = ''dataloc'' \<and> Name sel = ''L''"
        unfolding isMethodCall_Some by blast
      with assms(6) n show ?thesis by blast
    qed
  qed
  then have "locParsed (strconvQuote e) f val line = Returns ''(unknown)''"
    by (simp add: locParsed_def Inspect_indexVisit Inspect_matchVisit_no_call)
  then have "loc e val step = Returns (''(unknown)'', None)"
    using assms(2-5) by (simp add: loc_def)
  then show ?thesis
    by (simp add: wrappers [OF assms(1)] dropError_def)
qed

text \<open>
  A helper one frame above the test calls \<open>dataloc.L3(tc.name)\<close> on line 9, and the
  file otherwise is the example's: \<open>L3\<close> finds the file and the line, no call on the
  line is written \<open>dataloc.L\<close>, and the result is \<open>"(unknown)"\<close>.
\<close>

theorem only_dataloc_L_is_matched_witness:
  "(L3, 3::int) \<in> set [(L, 2), (L3, 3), (L4, 4), (L5, 5), (L6, 6)]
   \<and> runtimeCaller (tableEnv 3 (Inr (tableFile (assignTests tableAB) (callOf ''dataloc'' ''L3'' [tcName])))) 3
        = (''/src/demo/table_test.go'', 9, True)
   \<and> parserParseFile (tableEnv 3 (Inr (tableFile (assignTests tableAB) (callOf ''dataloc'' ''L3'' [tcName]))))
        ''table_test.go''
        = Inr (tableFile (assignTests tableAB) (callOf ''dataloc'' ''L3'' [tcName]))
   \<and> list_all (\<lambda>n. Line (Pos n) \<noteq> 9 \<or> isMethodCall n ''dataloc'' ''L'' = None)
        (preorder [tableFile (assignTests tableAB) (callOf ''dataloc'' ''L3'' [tcName])])
   \<and> L3 (tableEnv 3 (Inr (tableFile (assignTests tableAB) (callOf ''dataloc'' ''L3'' [tcName])))) ''a''
        = Returns ''(unknown)''"
proof -
  let ?f = "tableFile (assignTests tableAB) (callOf ''dataloc'' ''L3'' [tcName])"
  let ?e = "tableEnv 3 (Inr ?f)"
  have pre: "list_all (\<lambda>n. Line (Pos n) \<noteq> 9 \<or> isMethodCall n ''dataloc'' ''L'' = None)
        (preorder [?f])"
    by (simp add: preorder.simps example_defs)
  have hyp: "\<forall>n \<in> set (preorder [?f]). Line (Pos n) = 9 \<longrightarrow>
           \<not> (\<exists>p q x sel args. n = CallExpr p (SelectorExpr q (Ident x) sel) args
                  \<and> Name x = ''dataloc'' \<and> Name sel = ''L'')"
  proof (intro ballI impI)
    fix n
    assume "n \<in> set (preorder [?f])" "Line (Pos n) = 9"
    with pre have "isMethodCall n ''dataloc'' ''L'' = None"
      by (auto simp: list_all_iff)
    then show "\<not> (\<exists>p q x sel args. n = CallExpr p (SelectorExpr q (Ident x) sel) args
                  \<and> Name x = ''dataloc'' \<and> Name sel = ''L'')"
      by auto
  qed
  have c: "runtimeCaller ?e 3 = (''/src/demo/table_test.go'', 9, True)"
    by (simp add: tableEnv_def envAt_def)
  have g: "osGetwd ?e = Inr ''/src/demo''"
    by (simp add: tableEnv_def envAt_def)
  have r: "filepathRel ?e ''/src/demo'' ''/src/demo/table_test.go'' = Inr ''table_test.go''"
    by (simp add: tableEnv_def envAt_def relDemo_def)
  have p: "parserParseFile ?e ''table_test.go'' = Inr ?f"
    by (simp add: tableEnv_def envAt_def)
  have m: "(L3, 3::int) \<in> set [(L, 2), (L3, 3), (L4, 4), (L5, 5), (L6, 6)]"
    by simp
  from only_dataloc_L_is_matched [OF m c g r p hyp, of "''a''"] pre c p m
  show ?thesis by simp
qed

section \<open>Determinism\<close>

text \<open>The walks read \<open>strconv.Quote\<close> at the sought string only.\<close>

lemma isStringLiteral_quote:
  "q1 s = q2 s \<Longrightarrow> isStringLiteral q1 n s = isStringLiteral q2 n s"
  by (cases n) simp_all

lemma fieldMatches_quote:
  assumes "q1 val = q2 val"
  shows "fieldMatches q1 tt key val i fld = fieldMatches q2 tt key val i fld"
proof -
  have lit: "isStringLiteral q1 n val = isStringLiteral q2 n val" for n
    using assms by (rule isStringLiteral_quote)
  show ?thesis
    by (cases "(q1, tt, key, val, i, fld)" rule: fieldMatches.cases)
       (simp_all add: lit del: isStringLiteral.simps)
qed

lemma testcaseFields_quote:
  "q1 val = q2 val \<Longrightarrow> testcaseFields q1 tt key val i flds = testcaseFields q2 tt key val i flds"
proof (induction flds arbitrary: i)
  case Nil
  show ?case by simp
next
  case (Cons fld flds)
  from Cons.prems have "fieldMatches q1 tt key val i fld = fieldMatches q2 tt key val i fld"
    by (rule fieldMatches_quote)
  with Cons show ?case by simp
qed

lemma mapKeyMatches_quote:
  "q1 val = q2 val \<Longrightarrow> mapKeyMatches q1 val t = mapKeyMatches q2 val t"
  by (cases "(q1, val, t)" rule: mapKeyMatches.cases) simp_all

lemma structLitMatches_quote:
  assumes "q1 val = q2 val"
  shows "structLitMatches q1 tt key val t = structLitMatches q2 tt key val t"
proof (cases t)
  case (CompositeLit p ty elts)
  from assms have "testcaseFields q1 tt key val 0 elts = testcaseFields q2 tt key val 0 elts"
    by (rule testcaseFields_quote)
  with CompositeLit show ?thesis by simp
qed simp_all

lemma testcaseMatch_quote:
  assumes "q1 val = q2 val"
  shows "testcaseMatch q1 tt key val t = testcaseMatch q2 tt key val t"
proof -
  from assms have "mapKeyMatches q1 val t = mapKeyMatches q2 val t"
    by (rule mapKeyMatches_quote)
  moreover from assms
  have "structLitMatches q1 tt key val t = structLitMatches q2 tt key val t"
    by (rule structLitMatches_quote)
  ultimately show ?thesis by (simp add: testcaseMatch_def)
qed

lemma testcasesLoop_quote:
  assumes "q1 val = q2 val"
  shows "testcasesLoop q1 tt key val elts = testcasesLoop q2 tt key val elts"
proof (induction elts)
  case Nil
  show ?case by simp
next
  case (Cons t elts)
  from assms have "testcaseMatch q1 tt key val t = testcaseMatch q2 tt key val t"
    by (rule testcaseMatch_quote)
  with Cons show ?case by simp
qed

lemma findTestCaseItem_quote:
  assumes "q1 val = q2 val"
  shows "findTestCaseItem q1 init key val decls = findTestCaseItem q2 init key val decls"
proof -
  have loop: "testcasesLoop q1 tt key val elts = testcasesLoop q2 tt key val elts" for tt elts
    using assms by (rule testcasesLoop_quote)
  show ?thesis
    by (cases "(q1, init, key, val, decls)" rule: findTestCaseItem.cases)
       (simp_all add: loop split: option.splits)
qed

lemma matchArg_quote:
  assumes "q1 val = q2 val"
  shows "matchArg q1 idx val arg cur = matchArg q2 idx val arg cur"
proof -
  have item: "findTestCaseItem q1 init key val decls = findTestCaseItem q2 init key val decls"
    for init key decls
    using assms by (rule findTestCaseItem_quote)
  show ?thesis
    by (simp add: matchArg_def resolveEntry_def item split: option.splits prod.splits)
qed

lemma matchVisit_quote:
  assumes "q1 val = q2 val"
  shows "matchVisit q1 idx val line = matchVisit q2 idx val line"
proof (intro ext)
  fix n cur
  have arg: "matchArg q1 idx val a cur = matchArg q2 idx val a cur" for a
    using assms by (rule matchArg_quote)
  show "matchVisit q1 idx val line n cur = matchVisit q2 idx val line n cur"
    by (simp add: matchVisit_def arg split: option.splits list.splits)
qed

lemma locParsed_quote:
  assumes "q1 val = q2 val"
  shows "locParsed q1 f val line = locParsed q2 f val line"
proof -
  from assms have "matchVisit q1 idx val line = matchVisit q2 idx val line" for idx
    by (rule matchVisit_quote)
  then show ?thesis by (simp add: locParsed_def split: outcome.splits)
qed

text \<open>
  C9 (amended). The claim: two calls with the same key, depth and call site, over the
  same content of the source file, return the same string. The string \<open>loc\<close>
  returns carries the file name it gave to the parser, which is the caller's path made
  relative to the working directory (lines 60-70 and 157): the same call from another
  working directory returns another string. Amended: two calls with the same key and
  depth, from the same call site (the file and line of the frame at that depth), in the
  same working directory, with the same result of \<open>filepath.Rel\<close> and over the same
  content of that file, return the same result, whatever else differs between the two
  runs (the ok flag, the other frames, the other files). \<open>loc\<close> keeps nothing
  between calls: its result is a function of what it reads.
\<close>

theorem loc_is_deterministic:
  assumes "(w, step) \<in> set [(L, 2), (L3, 3), (L4, 4), (L5, 5), (L6, 6)]"
    and "runtimeCaller e1 step = (fname, line, ok1)"
    and "runtimeCaller e2 step = (fname, line, ok2)"
    and "osGetwd e1 = osGetwd e2"
    and "\<forall>cwd. osGetwd e1 = Inr cwd \<longrightarrow> filepathRel e1 cwd fname = filepathRel e2 cwd fname"
    and "\<forall>cwd rel. osGetwd e1 = Inr cwd \<and> filepathRel e1 cwd fname = Inr rel
           \<longrightarrow> parserParseFile e1 rel = parserParseFile e2 rel"
    and "strconvQuote e1 val = strconvQuote e2 val"
  shows "loc e1 val step = loc e2 val step \<and> w e1 val = w e2 val"
proof -
  have "loc e1 val step = loc e2 val step"
  proof (cases "osGetwd e1")
    case (Inl err)
    with assms(4) have "osGetwd e2 = Inl err" by simp
    with Inl show ?thesis by (simp add: loc_getwd_fails)
  next
    case cwd: (Inr cwd)
    with assms(4) have cwd2: "osGetwd e2 = Inr cwd" by simp
    from assms(5) cwd have rel12: "filepathRel e1 cwd fname = filepathRel e2 cwd fname" by blast
    show ?thesis
    proof (cases "filepathRel e1 cwd fname")
      case (Inl err)
      with rel12 have "filepathRel e2 cwd fname = Inl err" by simp
      with Inl assms(2,3) cwd cwd2 show ?thesis by (simp add: loc_rel_fails)
    next
      case rel: (Inr rel)
      with assms(6) cwd have parse12: "parserParseFile e1 rel = parserParseFile e2 rel" by blast
      from rel rel12 have rel2: "filepathRel e2 cwd fname = Inr rel" by simp
      have loc12: "locParsed (strconvQuote e1) f val line = locParsed (strconvQuote e2) f val line" for f
        using assms(7) by (rule locParsed_quote)
      show ?thesis
      proof (cases "parserParseFile e1 rel")
        case (Inl err)
        with parse12 have "parserParseFile e2 rel = Inl err" by simp
        with Inl assms(2,3) cwd cwd2 rel rel2 show ?thesis by (simp add: loc_parse_fails)
      next
        case (Inr f)
        with parse12 have "parserParseFile e2 rel = Inr f" by simp
        with Inr assms(2,3) cwd cwd2 rel rel2 loc12 [of f] show ?thesis by (simp add: loc_def)
      qed
    qed
  qed
  then show ?thesis by (simp add: wrappers [OF assms(1)])
qed

text \<open>
  Two runs of the example that differ in the ok flag, in the frames at the other
  depths and in the other files.
\<close>

theorem loc_is_deterministic_witness:
  "(L, 2::int) \<in> set [(L, 2), (L3, 3), (L4, 4), (L5, 5), (L6, 6)]
   \<and> runtimeCaller (tableEnv 2 (Inr (tableFile (assignTests tableAB) (callOf ''dataloc'' ''L'' [tcName])))) 2
       = (''/src/demo/table_test.go'', 9, True)
   \<and> runtimeCaller
        ((tableEnv 2 (Inr (tableFile (assignTests tableAB) (callOf ''dataloc'' ''L'' [tcName]))))
          \<lparr>runtimeCaller := (\<lambda>step. if step = 2 then (''/src/demo/table_test.go'', 9, False)
                                    else (''/src/demo/other_test.go'', 1, True)),
           parserParseFile := (\<lambda>file. if file = ''table_test.go''
              then Inr (tableFile (assignTests tableAB) (callOf ''dataloc'' ''L'' [tcName]))
              else Inr (File (at 1) []))\<rparr>) 2
       = (''/src/demo/table_test.go'', 9, False)
   \<and> L (tableEnv 2 (Inr (tableFile (assignTests tableAB) (callOf ''dataloc'' ''L'' [tcName])))) ''a''
       = L ((tableEnv 2 (Inr (tableFile (assignTests tableAB) (callOf ''dataloc'' ''L'' [tcName]))))
          \<lparr>runtimeCaller := (\<lambda>step. if step = 2 then (''/src/demo/table_test.go'', 9, False)
                                    else (''/src/demo/other_test.go'', 1, True)),
           parserParseFile := (\<lambda>file. if file = ''table_test.go''
              then Inr (tableFile (assignTests tableAB) (callOf ''dataloc'' ''L'' [tcName]))
              else Inr (File (at 1) []))\<rparr>) ''a''"
proof -
  let ?f = "tableFile (assignTests tableAB) (callOf ''dataloc'' ''L'' [tcName])"
  let ?e1 = "tableEnv 2 (Inr ?f)"
  let ?e2 = "?e1\<lparr>runtimeCaller := (\<lambda>step. if step = 2 then (''/src/demo/table_test.go'', 9, False)
                                    else (''/src/demo/other_test.go'', 1, True)),
           parserParseFile := (\<lambda>file. if file = ''table_test.go'' then Inr ?f
              else Inr (File (at 1) []))\<rparr>"
  have m: "(L, 2::int) \<in> set [(L, 2), (L3, 3), (L4, 4), (L5, 5), (L6, 6)]" by simp
  have c1: "runtimeCaller ?e1 2 = (''/src/demo/table_test.go'', 9, True)"
    by (simp add: tableEnv_def envAt_def)
  have c2: "runtimeCaller ?e2 2 = (''/src/demo/table_test.go'', 9, False)"
    by simp
  have g: "osGetwd ?e1 = osGetwd ?e2" by simp
  have r: "\<forall>cwd. osGetwd ?e1 = Inr cwd \<longrightarrow>
      filepathRel ?e1 cwd ''/src/demo/table_test.go'' = filepathRel ?e2 cwd ''/src/demo/table_test.go''"
    by simp
  have p: "\<forall>cwd rel. osGetwd ?e1 = Inr cwd \<and> filepathRel ?e1 cwd ''/src/demo/table_test.go'' = Inr rel
      \<longrightarrow> parserParseFile ?e1 rel = parserParseFile ?e2 rel"
    by (auto simp: tableEnv_def envAt_def relDemo_def)
  have q: "strconvQuote ?e1 ''a'' = strconvQuote ?e2 ''a''" by simp
  from loc_is_deterministic [OF m c1 c2 g r p q] c1 c2 m
  show ?thesis by simp
qed

text \<open>
  The same key, depth and call site, over the same file, from the working directories
  \<open>/src/demo\<close> and \<open>/src\<close>: the two results differ.
\<close>

theorem same_call_other_directory:
  "runtimeCaller (tableEnv 2 (Inr (tableFile (assignTests tableAB) (callOf ''dataloc'' ''L'' [tcName])))) 2
     = runtimeCaller
         (envAtSrc 9 2 (tableFile (assignTests tableAB) (callOf ''dataloc'' ''L'' [tcName]))) 2
   \<and> L (tableEnv 2 (Inr (tableFile (assignTests tableAB) (callOf ''dataloc'' ''L'' [tcName]))))
        ''a'' = Returns ''table_test.go:5''
   \<and> L (envAtSrc 9 2 (tableFile (assignTests tableAB) (callOf ''dataloc'' ''L'' [tcName])))
        ''a'' = Returns ''demo/table_test.go:5''
   \<and> L (tableEnv 2 (Inr (tableFile (assignTests tableAB) (callOf ''dataloc'' ''L'' [tcName]))))
        ''a''
      \<noteq> L (envAtSrc 9 2 (tableFile (assignTests tableAB) (callOf ''dataloc'' ''L'' [tcName])))
        ''a''"
  by (simp add: loc_defs example_defs example_defs4 digits.simps)

section \<open>The first matching entry\<close>

lemma testcasesLoop_find:
  "testcasesLoop quote tt key val elts = find (testcaseMatch quote tt key val) elts"
  by (induction elts) simp_all

text \<open>
  C4 (amended). The claim: the entries are tried in the order of the literal and the
  first match is returned; with entries named \<open>"a"\<close> then \<open>"b"\<close>, the key
  \<open>"a"\<close> yields the position of the first, \<open>"b"\<close> of the second, and a key in no
  entry yields \<open>"unknown"\<close>. All of it holds but the last string: the code yields
  \<open>"(unknown)"\<close>, with the parentheses (line 129). Amended: the same, with
  \<open>"(unknown)"\<close> as the result for a key in no entry.

  \<open>testcaseMatch\<close> is the test the loop makes on one entry; the loop returns the
  entry at the least index that passes it, and nothing when none does, and
  \<open>findTestCaseItem\<close> is that loop over the elements of the table.
\<close>

theorem findTestCaseItem_first_match:
  "(testcasesLoop quote tt key val elts = Some t \<longleftrightarrow>
      (\<exists>i < length elts. elts ! i = t \<and> testcaseMatch quote tt key val t
          \<and> (\<forall>j < i. \<not> testcaseMatch quote tt key val (elts ! j))))
   \<and> (testcasesLoop quote tt key val elts = None \<longleftrightarrow>
      (\<forall>t \<in> set elts. \<not> testcaseMatch quote tt key val t))
   \<and> (testcaseTypeOf ty decls = Some tt \<longrightarrow>
        findTestCaseItem quote (Some (CompositeLit p ty elts)) key val decls
          = testcasesLoop quote tt key val elts)
   \<and> L (tableEnv 2 (Inr (tableFile (assignTests tableAB) (callOf ''dataloc'' ''L'' [tcName]))))
        ''a'' = Returns ''table_test.go:5''
   \<and> L (tableEnv 2 (Inr (tableFile (assignTests tableAB) (callOf ''dataloc'' ''L'' [tcName]))))
        ''b'' = Returns ''table_test.go:6''
   \<and> L (tableEnv 2 (Inr (tableFile (assignTests tableAB) (callOf ''dataloc'' ''L'' [tcName]))))
        ''missing'' = Returns ''(unknown)''"
proof -
  have a: "testcasesLoop quote tt key val elts = Some t \<longleftrightarrow>
      (\<exists>i < length elts. elts ! i = t \<and> testcaseMatch quote tt key val t
          \<and> (\<forall>j < i. \<not> testcaseMatch quote tt key val (elts ! j)))"
    unfolding testcasesLoop_find find_Some_iff by blast
  have b: "testcasesLoop quote tt key val elts = None \<longleftrightarrow>
      (\<forall>t \<in> set elts. \<not> testcaseMatch quote tt key val t)"
    unfolding testcasesLoop_find find_None_iff by blast
  have c: "testcaseTypeOf ty decls = Some tt \<longrightarrow>
        findTestCaseItem quote (Some (CompositeLit p ty elts)) key val decls
          = testcasesLoop quote tt key val elts"
    by simp
  have d: "L (tableEnv 2 (Inr (tableFile (assignTests tableAB) (callOf ''dataloc'' ''L'' [tcName]))))
        ''a'' = Returns ''table_test.go:5''"
    by (simp add: loc_defs example_defs digits.simps)
  have e: "L (tableEnv 2 (Inr (tableFile (assignTests tableAB) (callOf ''dataloc'' ''L'' [tcName]))))
        ''b'' = Returns ''table_test.go:6''"
    by (simp add: loc_defs example_defs digits.simps)
  have f: "L (tableEnv 2 (Inr (tableFile (assignTests tableAB) (callOf ''dataloc'' ''L'' [tcName]))))
        ''missing'' = Returns ''(unknown)''"
    by (simp add: loc_defs example_defs)
  from a b c d e f show ?thesis by blast
qed

text \<open>
  In a table with two entries named \<open>"a"\<close>, on lines 5 and 6, the loop returns the
  one on line 5: both pass the test, and the one at index 0 is the first.
\<close>

theorem findTestCaseItem_first_match_witness:
  "testcaseMatch quotePlain structNameWant ''name'' ''a'' (keyedEntry 5 (quotePlain ''a'') ''1'')
   \<and> testcaseMatch quotePlain structNameWant ''name'' ''a'' (keyedEntry 6 (quotePlain ''a'') ''2'')
   \<and> testcaseTypeOf (Some (ArrayType (at 4) None structNameWant)) Map.empty = Some structNameWant
   \<and> findTestCaseItem quotePlain
        (Some (CompositeLit (at 4) (Some (ArrayType (at 4) None structNameWant))
           [keyedEntry 5 (quotePlain ''a'') ''1'', keyedEntry 6 (quotePlain ''a'') ''2'']))
        ''name'' ''a'' Map.empty
       = Some (keyedEntry 5 (quotePlain ''a'') ''1'')
   \<and> findTestCaseItem quotePlain
        (Some (CompositeLit (at 4) (Some (ArrayType (at 4) None structNameWant))
           [keyedEntry 5 (quotePlain ''a'') ''1'', keyedEntry 6 (quotePlain ''a'') ''2'']))
        ''name'' ''b'' Map.empty
       = None"
  using findTestCaseItem_first_match
    [where quote = quotePlain and tt = structNameWant and key = "''name''" and val = "''a''"
       and elts = "[keyedEntry 5 (quotePlain ''a'') ''1'', keyedEntry 6 (quotePlain ''a'') ''2'']"
       and t = "keyedEntry 5 (quotePlain ''a'') ''1''"
       and ty = "Some (ArrayType (at 4) None structNameWant)" and decls = Map.empty
       and p = "at 4"]
  by (simp add: testcaseMatch_def keyedEntry_def structNameWant_def quotePlain_def mkIdent_def)

theorem no_match_is_not_unknown:
  "L (tableEnv 2 (Inr (tableFile (assignTests tableAB) (callOf ''dataloc'' ''L'' [tcName]))))
        ''missing'' \<noteq> Returns ''unknown''"
  by (simp add: loc_defs example_defs)

section \<open>The index is keyed by object\<close>

text \<open>
  What one call of the first closure can add to each map: a record under the object
  of an identifier that the node declares, assigns or ranges over.
\<close>

lemma valueSpecNames_writes:
  assumes "valueSpecNames i names vals m h = Some e" and "0 \<le> i"
  shows "m h = Some e \<or> (\<exists>name \<in> set names. Obj name = h \<and> e \<in> set vals)"
  using assms
proof (induction names arbitrary: i m)
  case Nil
  then show ?case by simp
next
  case (Cons name names)
  let ?m = "if i < int (length vals) - 1 then m(Obj name \<mapsto> vals ! nat i) else m"
  from Cons.prems have "valueSpecNames (i + 1) names vals ?m h = Some e" by simp
  with Cons.IH [of "i + 1" ?m] Cons.prems(2)
  have "?m h = Some e \<or> (\<exists>name \<in> set names. Obj name = h \<and> e \<in> set vals)" by simp
  moreover have "m h = Some e \<or> (Obj name = h \<and> e \<in> set vals)" if "?m h = Some e"
  proof (cases "i < int (length vals) - 1 \<and> Obj name = h")
    case True
    with that have "e = vals ! nat i" by simp
    moreover from True Cons.prems(2) have "nat i < length vals" by linarith
    ultimately show ?thesis using True by simp
  next
    case False
    with that show ?thesis by (auto split: if_splits)
  qed
  ultimately show ?case by auto
qed

lemma varSpecs_writes:
  assumes "varSpecs specs m h = Some e"
  shows "m h = Some e \<or>
    (\<exists>q names ty vals. ValueSpec q names ty vals \<in> set specs
        \<and> (\<exists>name \<in> set names. Obj name = h \<and> e \<in> set vals))"
  using assms
proof (induction specs arbitrary: m)
  case Nil
  then show ?case by simp
next
  case (Cons spec specs)
  from Cons.prems have "varSpecs specs (varSpec spec m) h = Some e" by simp
  from Cons.IH [OF this] show ?case
  proof
    assume here: "varSpec spec m h = Some e"
    show ?thesis
    proof (cases spec)
      case (ValueSpec q names ty vals)
      with here have "valueSpecNames 0 names vals m h = Some e" by simp
      from valueSpecNames_writes [OF this]
      have "m h = Some e \<or> (\<exists>name \<in> set names. Obj name = h \<and> e \<in> set vals)" by simp
      then show ?thesis
      proof
        assume "m h = Some e"
        then show ?thesis by simp
      next
        assume "\<exists>name \<in> set names. Obj name = h \<and> e \<in> set vals"
        with ValueSpec have "\<exists>q names ty vals. ValueSpec q names ty vals \<in> set (spec # specs)
          \<and> (\<exists>name \<in> set names. Obj name = h \<and> e \<in> set vals)"
          by (intro exI [of _ q] exI [of _ names] exI [of _ ty] exI [of _ vals]) simp
        then show ?thesis by blast
      qed
    qed (use here in simp_all)
  next
    assume "\<exists>q names ty vals. ValueSpec q names ty vals \<in> set specs
        \<and> (\<exists>name \<in> set names. Obj name = h \<and> e \<in> set vals)"
    then obtain q names ty vals where "ValueSpec q names ty vals \<in> set specs"
      and names: "\<exists>name \<in> set names. Obj name = h \<and> e \<in> set vals"
      by blast
    then have "ValueSpec q names ty vals \<in> set (spec # specs)" by simp
    with names show ?thesis by blast
  qed
qed

lemma typeSpecs_writes:
  assumes "typeSpecs specs m h = Some e"
  shows "m h = Some e \<or> (\<exists>q name. TypeSpec q name e \<in> set specs \<and> Obj name = h)"
  using assms
proof (induction specs arbitrary: m)
  case Nil
  then show ?case by simp
next
  case (Cons spec specs)
  from Cons.prems have "typeSpecs specs (typeSpec spec m) h = Some e" by simp
  from Cons.IH [OF this] show ?case
  proof
    assume here: "typeSpec spec m h = Some e"
    show ?thesis
    proof (cases spec)
      case (TypeSpec q name ty)
      with here show ?thesis by (auto split: if_splits)
    qed (use here in simp_all)
  next
    assume "\<exists>q name. TypeSpec q name e \<in> set specs \<and> Obj name = h"
    then obtain q name where "TypeSpec q name e \<in> set specs" and name: "Obj name = h"
      by blast
    then have "TypeSpec q name e \<in> set (spec # specs)" by simp
    with name show ?thesis by blast
  qed
qed

lemma assignLhs_writes:
  assumes "assignLhs i exprs nlhs rhs m h = Some e" and "0 \<le> i"
    and "nat i + length exprs = nlhs"
  shows "m h = Some e \<or> (\<exists>ident. Ident ident \<in> set exprs \<and> Obj ident = h \<and> e \<in> set rhs)"
  using assms
proof (induction exprs arbitrary: i m)
  case Nil
  then show ?case by simp
next
  case (Cons expr exprs)
  let ?m = "assignExpr i expr nlhs rhs m"
  from Cons.prems have "assignLhs (i + 1) exprs nlhs rhs ?m h = Some e" by simp
  moreover from Cons.prems have "nat (i + 1) + length exprs = nlhs" by simp
  ultimately
  have "?m h = Some e \<or> (\<exists>ident. Ident ident \<in> set exprs \<and> Obj ident = h \<and> e \<in> set rhs)"
    using Cons.IH [of "i + 1" ?m] Cons.prems(2) by simp
  moreover have "m h = Some e \<or> (\<exists>ident. expr = Ident ident \<and> Obj ident = h \<and> e \<in> set rhs)"
    if "?m h = Some e"
  proof (cases expr)
    case (Ident ident)
    from Cons.prems(2,3) have "nlhs = length rhs \<Longrightarrow> nat i < length rhs" by simp
    moreover have "length rhs = 1 \<Longrightarrow> rhs ! 0 \<in> set rhs" by simp
    ultimately show ?thesis using that Ident by (auto split: if_splits)
  qed (use that in simp_all)
  ultimately show ?case by auto
qed

lemma indexNode_rangeValue:
  assumes "objToRangeExprForValue (indexNode n idx) h = Some e"
  shows "objToRangeExprForValue idx h = Some e
    \<or> (\<exists>p key ident body. n = RangeStmt p key (Some (Ident ident)) e body \<and> Obj ident = h)"
proof (cases n)
  case (RangeStmt p key v x body)
  show ?thesis
  proof (cases "asIdent v")
    case None
    with assms RangeStmt show ?thesis
      by (simp add: rangeStmt_def Let_def split: option.splits)
  next
    case (Some ident)
    then have "v = Some (Ident ident)" by (auto elim: asIdent.elims)
    with assms RangeStmt show ?thesis
      by (auto simp: rangeStmt_def Let_def split: option.splits if_splits)
  qed
qed (use assms in \<open>simp_all split: if_splits\<close>)

lemma indexNode_rangeKey:
  assumes "objToRangeExprForKey (indexNode n idx) h = Some e"
  shows "objToRangeExprForKey idx h = Some e
    \<or> (\<exists>p ident v body. n = RangeStmt p (Some (Ident ident)) v e body \<and> Obj ident = h)"
proof (cases n)
  case (RangeStmt p key v x body)
  show ?thesis
  proof (cases "asIdent key")
    case None
    with assms RangeStmt show ?thesis
      by (simp add: rangeStmt_def Let_def split: option.splits)
  next
    case (Some ident)
    then have "key = Some (Ident ident)" by (auto elim: asIdent.elims)
    with assms RangeStmt show ?thesis
      by (auto simp: rangeStmt_def Let_def split: option.splits if_splits)
  qed
qed (use assms in \<open>simp_all split: if_splits\<close>)

lemma indexNode_typeDecl:
  assumes "objToTypeDecl (indexNode n idx) h = Some e"
  shows "objToTypeDecl idx h = Some e
    \<or> (\<exists>p specs q name. n = GenDecl p token_TYPE specs \<and> TypeSpec q name e \<in> set specs
          \<and> Obj name = h)"
proof (cases n)
  case (RangeStmt p key v x body)
  with assms show ?thesis by (simp add: rangeStmt_def Let_def split: option.splits)
next
  case (GenDecl p tok specs)
  with assms typeSpecs_writes [of specs "objToTypeDecl idx" h e] show ?thesis
    by (auto split: if_splits)
qed (use assms in simp_all)

lemma indexNode_varInit:
  assumes "objToVarInit (indexNode n idx) h = Some e"
  shows "objToVarInit idx h = Some e
    \<or> (\<exists>p specs q names ty vals name. n = GenDecl p token_VAR specs
          \<and> ValueSpec q names ty vals \<in> set specs \<and> name \<in> set names \<and> Obj name = h
          \<and> e \<in> set vals)
    \<or> (\<exists>p lhs rhs ident. n = AssignStmt p lhs rhs \<and> Ident ident \<in> set lhs \<and> Obj ident = h
          \<and> e \<in> set rhs)"
proof (cases n)
  case (RangeStmt p key v x body)
  with assms show ?thesis by (simp add: rangeStmt_def Let_def split: option.splits)
next
  case (GenDecl p tok specs)
  with assms varSpecs_writes [of specs "objToVarInit idx" h e] show ?thesis
    by (auto split: if_splits)
next
  case (AssignStmt p lhs rhs)
  with assms assignLhs_writes [of 0 lhs "length lhs" rhs "objToVarInit idx" h e] show ?thesis
    by auto
qed (use assms in simp_all)

text \<open>The same over the whole walk: the records come from the nodes visited.\<close>

lemma walk_typeDecl:
  assumes "objToTypeDecl (foldl (\<lambda>i n. indexNode n i) idx ns) h = Some e"
  shows "objToTypeDecl idx h = Some e
    \<or> (\<exists>p specs q name. GenDecl p token_TYPE specs \<in> set ns \<and> TypeSpec q name e \<in> set specs
          \<and> Obj name = h)"
  using assms
proof (induction ns arbitrary: idx)
  case Nil
  then show ?case by simp
next
  case (Cons n ns)
  from Cons.prems have "objToTypeDecl (foldl (\<lambda>i n. indexNode n i) (indexNode n idx) ns) h = Some e"
    by simp
  from Cons.IH [OF this] show ?case
  proof
    assume "objToTypeDecl (indexNode n idx) h = Some e"
    from indexNode_typeDecl [OF this] show ?thesis by auto
  next
    assume "\<exists>p specs q name. GenDecl p token_TYPE specs \<in> set ns
        \<and> TypeSpec q name e \<in> set specs \<and> Obj name = h"
    then show ?thesis by auto
  qed
qed

lemma walk_varInit:
  assumes "objToVarInit (foldl (\<lambda>i n. indexNode n i) idx ns) h = Some e"
  shows "objToVarInit idx h = Some e
    \<or> (\<exists>p specs q names ty vals name. GenDecl p token_VAR specs \<in> set ns
          \<and> ValueSpec q names ty vals \<in> set specs \<and> name \<in> set names \<and> Obj name = h
          \<and> e \<in> set vals)
    \<or> (\<exists>p lhs rhs ident. AssignStmt p lhs rhs \<in> set ns \<and> Ident ident \<in> set lhs
          \<and> Obj ident = h \<and> e \<in> set rhs)"
  using assms
proof (induction ns arbitrary: idx)
  case Nil
  then show ?case by simp
next
  case (Cons n ns)
  from Cons.prems have "objToVarInit (foldl (\<lambda>i n. indexNode n i) (indexNode n idx) ns) h = Some e"
    by simp
  from Cons.IH [OF this]
  consider (here) "objToVarInit (indexNode n idx) h = Some e"
    | (decl) "\<exists>p specs q names ty vals name. GenDecl p token_VAR specs \<in> set ns
          \<and> ValueSpec q names ty vals \<in> set specs \<and> name \<in> set names \<and> Obj name = h
          \<and> e \<in> set vals"
    | (assign) "\<exists>p lhs rhs ident. AssignStmt p lhs rhs \<in> set ns \<and> Ident ident \<in> set lhs
          \<and> Obj ident = h \<and> e \<in> set rhs"
    by blast
  then show ?case
  proof cases
    case here
    from indexNode_varInit [OF this]
    consider (old) "objToVarInit idx h = Some e"
      | (decl1) "\<exists>p specs q names ty vals name. n = GenDecl p token_VAR specs
          \<and> ValueSpec q names ty vals \<in> set specs \<and> name \<in> set names \<and> Obj name = h
          \<and> e \<in> set vals"
      | (assign1) "\<exists>p lhs rhs ident. n = AssignStmt p lhs rhs \<and> Ident ident \<in> set lhs
          \<and> Obj ident = h \<and> e \<in> set rhs"
      by blast
    then show ?thesis
    proof cases
      case old
      then show ?thesis by simp
    next
      case decl1
      then obtain p specs q names ty vals name where "n = GenDecl p token_VAR specs"
        and rest: "ValueSpec q names ty vals \<in> set specs" "name \<in> set names" "Obj name = h"
          "e \<in> set vals"
        by blast
      then have "GenDecl p token_VAR specs \<in> set (n # ns)" by simp
      with rest show ?thesis by blast
    next
      case assign1
      then obtain p lhs rhs ident where "n = AssignStmt p lhs rhs"
        and rest: "Ident ident \<in> set lhs" "Obj ident = h" "e \<in> set rhs"
        by blast
      then have "AssignStmt p lhs rhs \<in> set (n # ns)" by simp
      with rest show ?thesis by blast
    qed
  next
    case decl
    then obtain p specs q names ty vals name where "GenDecl p token_VAR specs \<in> set ns"
      and rest: "ValueSpec q names ty vals \<in> set specs" "name \<in> set names" "Obj name = h"
        "e \<in> set vals"
      by blast
    then have "GenDecl p token_VAR specs \<in> set (n # ns)" by simp
    with rest show ?thesis by blast
  next
    case assign
    then obtain p lhs rhs ident where "AssignStmt p lhs rhs \<in> set ns"
      and rest: "Ident ident \<in> set lhs" "Obj ident = h" "e \<in> set rhs"
      by blast
    then have "AssignStmt p lhs rhs \<in> set (n # ns)" by simp
    with rest show ?thesis by blast
  qed
qed

lemma walk_rangeValue:
  assumes "objToRangeExprForValue (foldl (\<lambda>i n. indexNode n i) idx ns) h = Some e"
  shows "objToRangeExprForValue idx h = Some e
    \<or> (\<exists>p key ident body. RangeStmt p key (Some (Ident ident)) e body \<in> set ns \<and> Obj ident = h)"
  using assms
proof (induction ns arbitrary: idx)
  case Nil
  then show ?case by simp
next
  case (Cons n ns)
  from Cons.prems
  have "objToRangeExprForValue (foldl (\<lambda>i n. indexNode n i) (indexNode n idx) ns) h = Some e"
    by simp
  from Cons.IH [OF this] show ?case
  proof
    assume "objToRangeExprForValue (indexNode n idx) h = Some e"
    from indexNode_rangeValue [OF this] show ?thesis by auto
  next
    assume "\<exists>p key ident body. RangeStmt p key (Some (Ident ident)) e body \<in> set ns
        \<and> Obj ident = h"
    then show ?thesis by auto
  qed
qed

lemma walk_rangeKey:
  assumes "objToRangeExprForKey (foldl (\<lambda>i n. indexNode n i) idx ns) h = Some e"
  shows "objToRangeExprForKey idx h = Some e
    \<or> (\<exists>p ident v body. RangeStmt p (Some (Ident ident)) v e body \<in> set ns \<and> Obj ident = h)"
  using assms
proof (induction ns arbitrary: idx)
  case Nil
  then show ?case by simp
next
  case (Cons n ns)
  from Cons.prems
  have "objToRangeExprForKey (foldl (\<lambda>i n. indexNode n i) (indexNode n idx) ns) h = Some e"
    by simp
  from Cons.IH [OF this] show ?case
  proof
    assume "objToRangeExprForKey (indexNode n idx) h = Some e"
    from indexNode_rangeKey [OF this] show ?thesis by auto
  next
    assume "\<exists>p ident v body. RangeStmt p (Some (Ident ident)) v e body \<in> set ns
        \<and> Obj ident = h"
    then show ?thesis by auto
  qed
qed

text \<open>
  C8. The four maps are keyed by the object of the identifier. Every record found
  under an object \<open>h\<close> after the first walk was written by a node of the file for an
  identifier whose object is \<open>h\<close>: a type spec of that name, a \<open>var\<close> spec or an
  assignment of that variable, a range statement with that value or key variable. So a
  lookup of one binding never returns what was recorded for another binding of the same
  name. The second walk looks the loop variable and the collection up by their objects
  too: their names play no role in the lookups.
\<close>

theorem index_is_keyed_by_object:
  assumes "Inspect indexVisit [f] emptyIndex = Returns idx"
  shows "(objToTypeDecl idx h = Some e \<longrightarrow>
        (\<exists>p specs q name. GenDecl p token_TYPE specs \<in> set (preorder [f])
            \<and> TypeSpec q name e \<in> set specs \<and> Obj name = h))
    \<and> (objToVarInit idx h = Some e \<longrightarrow>
        (\<exists>p specs q names ty vals name. GenDecl p token_VAR specs \<in> set (preorder [f])
            \<and> ValueSpec q names ty vals \<in> set specs \<and> name \<in> set names \<and> Obj name = h
            \<and> e \<in> set vals)
        \<or> (\<exists>p lhs rhs ident. AssignStmt p lhs rhs \<in> set (preorder [f])
            \<and> Ident ident \<in> set lhs \<and> Obj ident = h \<and> e \<in> set rhs))
    \<and> (objToRangeExprForValue idx h = Some e \<longrightarrow>
        (\<exists>p key ident body. RangeStmt p key (Some (Ident ident)) e body \<in> set (preorder [f])
            \<and> Obj ident = h))
    \<and> (objToRangeExprForKey idx h = Some e \<longrightarrow>
        (\<exists>p ident v body. RangeStmt p (Some (Ident ident)) v e body \<in> set (preorder [f])
            \<and> Obj ident = h))
    \<and> matchArg quote idx val (SelectorExpr p' (Ident (ident'\<lparr>Name := nm\<rparr>)) sel) cur
        = matchArg quote idx val (SelectorExpr p' (Ident ident') sel) cur
    \<and> resolveEntry quote idx val (Some (Ident (ident'\<lparr>Name := nm\<rparr>))) key cur
        = resolveEntry quote idx val (Some (Ident ident')) key cur"
proof -
  from assms have idx: "idx = foldl (\<lambda>i n. indexNode n i) emptyIndex (preorder [f])"
    by (simp add: Inspect_indexVisit)
  have a: "objToTypeDecl idx h = Some e \<longrightarrow>
        (\<exists>p specs q name. GenDecl p token_TYPE specs \<in> set (preorder [f])
            \<and> TypeSpec q name e \<in> set specs \<and> Obj name = h)"
    using walk_typeDecl [of emptyIndex "preorder [f]" h e]
    by (simp add: idx emptyIndex_def)
  have b: "objToVarInit idx h = Some e \<longrightarrow>
        (\<exists>p specs q names ty vals name. GenDecl p token_VAR specs \<in> set (preorder [f])
            \<and> ValueSpec q names ty vals \<in> set specs \<and> name \<in> set names \<and> Obj name = h
            \<and> e \<in> set vals)
        \<or> (\<exists>p lhs rhs ident. AssignStmt p lhs rhs \<in> set (preorder [f])
            \<and> Ident ident \<in> set lhs \<and> Obj ident = h \<and> e \<in> set rhs)"
    using walk_varInit [of emptyIndex "preorder [f]" h e]
    by (simp add: idx emptyIndex_def)
  have c: "objToRangeExprForValue idx h = Some e \<longrightarrow>
        (\<exists>p key ident body. RangeStmt p key (Some (Ident ident)) e body \<in> set (preorder [f])
            \<and> Obj ident = h)"
    using walk_rangeValue [of emptyIndex "preorder [f]" h e]
    by (simp add: idx emptyIndex_def)
  have d: "objToRangeExprForKey idx h = Some e \<longrightarrow>
        (\<exists>p ident v body. RangeStmt p (Some (Ident ident)) v e body \<in> set (preorder [f])
            \<and> Obj ident = h)"
    using walk_rangeKey [of emptyIndex "preorder [f]" h e]
    by (simp add: idx emptyIndex_def)
  have e: "matchArg quote idx val (SelectorExpr p' (Ident (ident'\<lparr>Name := nm\<rparr>)) sel) cur
        = matchArg quote idx val (SelectorExpr p' (Ident ident') sel) cur"
    by (simp add: matchArg_def)
  have f: "resolveEntry quote idx val (Some (Ident (ident'\<lparr>Name := nm\<rparr>))) key cur
        = resolveEntry quote idx val (Some (Ident ident')) key cur"
    by (simp add: resolveEntry_def)
  from a b c d e f show ?thesis by blast
qed

text \<open>
  In \<open>shadowFile\<close> both test functions declare a table \<open>tests\<close> and a loop variable
  \<open>tc\<close>. The index holds the table of the first under object 2 and the table of the
  second under object 12, and the key \<open>"a"\<close> resolves to line 5 from the call on line 9
  and to line 16 from the call on line 19.
\<close>

theorem index_is_keyed_by_object_witness:
  "Inspect indexVisit [shadowFile] emptyIndex
     = Returns (foldl (\<lambda>i n. indexNode n i) emptyIndex (preorder [shadowFile]))
   \<and> objToVarInit (foldl (\<lambda>i n. indexNode n i) emptyIndex (preorder [shadowFile])) (Some 2)
       = Some tableAB
   \<and> objToVarInit (foldl (\<lambda>i n. indexNode n i) emptyIndex (preorder [shadowFile])) (Some 12)
       = Some tableBA
   \<and> ((\<exists>p specs q names ty vals name. GenDecl p token_VAR specs \<in> set (preorder [shadowFile])
            \<and> ValueSpec q names ty vals \<in> set specs \<and> name \<in> set names \<and> Obj name = Some 2
            \<and> tableAB \<in> set vals)
        \<or> (\<exists>p lhs rhs ident. AssignStmt p lhs rhs \<in> set (preorder [shadowFile])
            \<and> Ident ident \<in> set lhs \<and> Obj ident = Some 2 \<and> tableAB \<in> set rhs))
   \<and> L (envAt 9 2 (Inr shadowFile)) ''a'' = Returns ''table_test.go:5''
   \<and> L (envAt 19 2 (Inr shadowFile)) ''a'' = Returns ''table_test.go:16''"
proof -
  let ?idx = "foldl (\<lambda>i n. indexNode n i) emptyIndex (preorder [shadowFile])"
  have run: "Inspect indexVisit [shadowFile] emptyIndex = Returns ?idx"
    by (rule Inspect_indexVisit)
  have ab: "objToVarInit ?idx (Some 2) = Some tableAB"
    by (simp add: preorder.simps example_defs example_defs3 emptyIndex_def rangeStmt_def)
  have ba: "objToVarInit ?idx (Some 12) = Some tableBA"
    by (simp add: preorder.simps example_defs example_defs3 emptyIndex_def rangeStmt_def)
  have l9: "L (envAt 9 2 (Inr shadowFile)) ''a'' = Returns ''table_test.go:5''"
    by (simp add: loc_defs example_defs example_defs3 digits.simps)
  have l19: "L (envAt 19 2 (Inr shadowFile)) ''a'' = Returns ''table_test.go:16''"
    by (simp add: loc_defs example_defs example_defs3 digits.simps)
  from index_is_keyed_by_object [OF run, of "Some 2" tableAB] ab
  have "(\<exists>p specs q names ty vals name. GenDecl p token_VAR specs \<in> set (preorder [shadowFile])
            \<and> ValueSpec q names ty vals \<in> set specs \<and> name \<in> set names \<and> Obj name = Some 2
            \<and> tableAB \<in> set vals)
        \<or> (\<exists>p lhs rhs ident. AssignStmt p lhs rhs \<in> set (preorder [shadowFile])
            \<and> Ident ident \<in> set lhs \<and> Obj ident = Some 2 \<and> tableAB \<in> set rhs)"
    by blast
  with run ab ba l9 l19 show ?thesis by blast
qed

end
